theory Spec2Isabelle
  imports Main "HOL-Library.Word"
begin

section \<open>Data model of consumption.h and consumption.c\<close>

type_synonym u8 = "8 word"
type_synonym u32 = "32 word"

text \<open>
  \<open>consumption_config_t\<close>. The two character arrays are modelled as strings.
\<close>

record consumption_config =
  machine_id :: u32
  enable_external_api :: bool
  ring_buffer_size :: u32
  aggregation_interval :: u32
  api_endpoint :: string
  api_key :: string
  max_retry_attempts :: u32

text \<open>\<open>consumption_event_t\<close>; the fields carry the prefix \<open>ev_\<close>.\<close>

record consumption_event =
  ev_timestamp :: u32
  ev_machine_id :: u32
  ev_product_id :: u8

text \<open>
  \<open>consumption_aggregate_t\<close>; \<open>product_counts\<close> is the array of 256 counters, a list
  indexed by the product id.
\<close>

record consumption_aggregate =
  agg_machine_id :: u32
  period_start :: u32
  period_end :: u32
  agg_total_events :: u32
  product_counts :: "u32 list"

datatype consumption_error =
  CONSUMPTION_SUCCESS
  | CONSUMPTION_ERROR_INVALID_CONFIG
  | CONSUMPTION_ERROR_STORAGE_FULL
  | CONSUMPTION_ERROR_NETWORK_UNAVAILABLE
  | CONSUMPTION_ERROR_API_ERROR
  | CONSUMPTION_ERROR_MEMORY_ERROR
  | CONSUMPTION_ERROR_INVALID_PARAMETER

text \<open>
  \<open>consumption_state_t\<close>, the type of the global \<open>g_state\<close>. The block that
  \<open>event_buffer\<close> points to is the list \<open>event_buffer\<close>; the null pointer is the empty
  list.
\<close>

record consumption_state =
  initialized :: bool
  config :: consumption_config
  total_events :: u32
  buffer_head :: u32
  buffer_tail :: u32
  buffer_count :: u32
  event_buffer :: "consumption_event list"
  last_aggregation :: u32
  last_sync :: u32
  sync_in_progress :: bool

text \<open>
  The calls into the platform layer that leave a trace: \<open>save_state\<close> (the state handed to
  \<open>consumption_platform_storage_write\<close>), \<open>consumption_platform_network_send\<close> (endpoint,
  and the payload: the text in \<open>json_buffer\<close> and the length passed), and
  \<open>consumption_platform_log\<close>.
  What the platform returns (clock readings, the result of reading the storage,
  of the allocation and of the network send) is an argument of the function that asks
  for it.
\<close>

datatype platform_call =
  StorageWrite consumption_state
  | NetworkSend string "string \<times> nat"
  | Log nat string

section \<open>Internal functions\<close>

text \<open>\<open>validate_config\<close>; \<open>None\<close> is the null pointer.\<close>

definition validate_config :: "consumption_config option \<Rightarrow> bool" where
  "validate_config cfg =
     (case cfg of
        None \<Rightarrow> False
      | Some c \<Rightarrow>
          if machine_id c = 0 then False
          else if ring_buffer_size c = 0 then False
          else if ring_buffer_size c > 10000 then False
          else True)"

text \<open>\<open>init_default_config\<close>: \<open>memset\<close> to zero, then the five assignments.\<close>

definition zero_config :: consumption_config where
  "zero_config =
     \<lparr>machine_id = 0, enable_external_api = False, ring_buffer_size = 0,
      aggregation_interval = 0, api_endpoint = [], api_key = [],
      max_retry_attempts = 0\<rparr>"

definition init_default_config :: consumption_config where
  "init_default_config =
     zero_config\<lparr>enable_external_api := False, ring_buffer_size := 1000,
       aggregation_interval := 3600, max_retry_attempts := 3,
       api_endpoint := ''https://api.example.com/consumption''\<rparr>"

text \<open>The state after \<open>memset(&g_state, 0, sizeof(g_state))\<close>, also the static initial value.\<close>

definition zero_state :: consumption_state where
  "zero_state =
     \<lparr>initialized = False, config = zero_config, total_events = 0, buffer_head = 0,
      buffer_tail = 0, buffer_count = 0, event_buffer = [], last_aggregation = 0,
      last_sync = 0, sync_in_progress = False\<rparr>"

text \<open>
  \<open>add_event_to_buffer\<close>. The result is \<open>None\<close> where the C code has no defined
  behaviour: a remainder by a capacity of zero, or a store outside the allocated block.
\<close>

definition add_event_to_buffer ::
  "consumption_event \<Rightarrow> consumption_state \<Rightarrow> (consumption_error \<times> consumption_state) option" where
  "add_event_to_buffer event s =
     (let cap = ring_buffer_size (config s) in
      if cap = 0 then None
      else
        let s1 = (if buffer_count s \<ge> cap
                  then s\<lparr>buffer_tail := (buffer_tail s + 1) mod cap,
                         buffer_count := buffer_count s - 1\<rparr>
                  else s)
        in if unat (buffer_head s1) \<ge> length (event_buffer s1) then None
           else Some (CONSUMPTION_SUCCESS,
                      s1\<lparr>event_buffer := (event_buffer s1)[unat (buffer_head s1) := event],
                         buffer_head := (buffer_head s1 + 1) mod cap,
                         buffer_count := buffer_count s1 + 1\<rparr>))"

text \<open>
  The loop of \<open>aggregate_events\<close>: the first argument is the number of iterations left,
  \<open>index\<close> the running index. \<open>None\<close> is a read outside the allocated block or a
  remainder by zero.
\<close>

fun aggregate_loop ::
  "nat \<Rightarrow> u32 \<Rightarrow> u32 \<Rightarrow> u32 \<Rightarrow> consumption_state \<Rightarrow> consumption_aggregate
     \<Rightarrow> consumption_aggregate option" where
  "aggregate_loop 0 index start_time end_time s aggregate = Some aggregate"
| "aggregate_loop (Suc n) index start_time end_time s aggregate =
     (if unat index \<ge> length (event_buffer s) then None
      else
        let event = event_buffer s ! unat index;
            aggregate1 =
              (if ev_timestamp event \<ge> start_time \<and> ev_timestamp event \<le> end_time
               then
                 let a = aggregate\<lparr>agg_total_events := agg_total_events aggregate + 1\<rparr>
                 in if unat (ev_product_id event) < 256
                    then a\<lparr>product_counts :=
                             (product_counts a)[unat (ev_product_id event) :=
                                product_counts a ! unat (ev_product_id event) + 1]\<rparr>
                    else a
               else aggregate)
        in if ring_buffer_size (config s) = 0 then None
           else aggregate_loop n ((index + 1) mod ring_buffer_size (config s))
                  start_time end_time s aggregate1)"

text \<open>
  \<open>aggregate_events\<close> reads \<open>g_state\<close> and fills \<open>*aggregate\<close>; it is given the state
  and returns the aggregate together with the state it leaves.
\<close>

definition aggregate_events ::
  "u32 \<Rightarrow> u32 \<Rightarrow> consumption_state \<Rightarrow> (consumption_aggregate \<times> consumption_state) option" where
  "aggregate_events start_time end_time s =
     (let aggregate0 =
            \<lparr>agg_machine_id = machine_id (config s), period_start = start_time,
             period_end = end_time, agg_total_events = 0,
             product_counts = replicate 256 0\<rparr>
      in case aggregate_loop (unat (buffer_count s)) (buffer_tail s) start_time end_time s
                aggregate0 of
           None \<Rightarrow> None
         | Some aggregate \<Rightarrow> Some (aggregate, s))"

text \<open>
  \<open>snprintf\<close> with \<open>%u\<close> and \<open>%d\<close> prints a number in decimal, without padding.
\<close>

fun decimal :: "nat \<Rightarrow> string" where
  "decimal n =
     (if n < 10 then [''0123456789'' ! n]
      else decimal (n div 10) @ [''0123456789'' ! (n mod 10)])"

declare decimal.simps [simp del]

text \<open>
  One call \<open>len += snprintf(json_buffer + len, sizeof(json_buffer) - len, ...)\<close> with
  \<open>sizeof(json_buffer) = 1024\<close>. The pair is the text in \<open>json_buffer\<close> and \<open>len\<close>;
  \<open>out\<close> is the formatted text. \<open>snprintf\<close> stores at most \<open>size - 1\<close> characters and
  returns the length of \<open>out\<close>, so \<open>len\<close> can pass 1024; from then on the next call
  points outside \<open>json_buffer\<close> with a size that wrapped around: \<open>None\<close>.
\<close>

definition snprintf_at :: "(string \<times> nat) option \<Rightarrow> string \<Rightarrow> (string \<times> nat) option" where
  "snprintf_at jb out =
     (case jb of
        None \<Rightarrow> None
      | Some (buf, len) \<Rightarrow>
          if len > 1024 then None
          else Some (buf @ take (1023 - len) out, len + length out))"

text \<open>
  The loop \<open>for (int i = 1; i < 256; i++)\<close> over the product counts: the first argument
  is the number of iterations left.
\<close>

primrec json_products ::
  "nat \<Rightarrow> nat \<Rightarrow> u32 list \<Rightarrow> (string \<times> nat) option \<Rightarrow> bool \<Rightarrow> (string \<times> nat) option" where
  \<open>json_products 0 i counts jb first = jb\<close>
| \<open>json_products (Suc n) i counts jb first =
     (if counts ! i > 0
      then
        let jb1 = (if \<not> first then snprintf_at jb '','' else jb);
            jb2 = snprintf_at jb1 (''"'' @ decimal i @ ''":'' @ decimal (unat (counts ! i)))
        in json_products n (i + 1) counts jb2 False
      else json_products n (i + 1) counts jb first)\<close>

text \<open>
  The payload part of \<open>sync_to_api\<close>: what is in \<open>json_buffer\<close> and the value of
  \<open>len\<close> when \<open>consumption_platform_network_send\<close> is called.
\<close>

definition build_json :: "consumption_aggregate \<Rightarrow> (string \<times> nat) option" where
  \<open>build_json aggregate =
     (let jb0 = snprintf_at (Some ([], 0))
                  (''{"machine_id":'' @ decimal (unat (agg_machine_id aggregate))
                   @ '',"period_start":'' @ decimal (unat (period_start aggregate))
                   @ '',"period_end":'' @ decimal (unat (period_end aggregate))
                   @ '',"total_events":'' @ decimal (unat (agg_total_events aggregate)));
          jb1 = snprintf_at jb0 '',"products":{'';
          jb2 = json_products 255 1 (product_counts aggregate) jb1 True
      in snprintf_at jb2 ''}}'')\<close>

text \<open>
  \<open>sync_to_api\<close>. \<open>now\<close> is what \<open>consumption_platform_get_timestamp\<close> returns and
  \<open>success\<close> what \<open>consumption_platform_network_send\<close> returns, when they are called.
  The result is the error code, the new \<open>g_state\<close> and the platform calls made, in
  order. It is \<open>None\<close> where the C code has no defined behaviour: when
  \<open>aggregate_events\<close> has none, and when the formatting runs past the end of
  \<open>json_buffer\<close>, which happens before the send.
\<close>

definition sync_to_api ::
  "u32 \<Rightarrow> bool \<Rightarrow> consumption_state
     \<Rightarrow> (consumption_error \<times> consumption_state \<times> platform_call list) option" where
  "sync_to_api now success s =
     (if \<not> enable_external_api (config s) then Some (CONSUMPTION_SUCCESS, s, [])
      else if sync_in_progress s then Some (CONSUMPTION_ERROR_API_ERROR, s, [])
      else
        let s1 = s\<lparr>sync_in_progress := True\<rparr>;
            period_start = last_aggregation s1;
            period_end = now
        in if period_end - period_start < aggregation_interval (config s1)
           then Some (CONSUMPTION_SUCCESS, s1\<lparr>sync_in_progress := False\<rparr>, [])
           else
             case aggregate_events period_start period_end s1 of
               None \<Rightarrow> None
             | Some (aggregate, s2) \<Rightarrow>
                 if agg_total_events aggregate = 0
                 then Some (CONSUMPTION_SUCCESS, s2\<lparr>sync_in_progress := False\<rparr>, [])
                 else
                   case build_json aggregate of
                     None \<Rightarrow> None
                   | Some payload \<Rightarrow>
                       let send = NetworkSend (api_endpoint (config s2)) payload;
                           s3 = s2\<lparr>sync_in_progress := False\<rparr>
                       in if success
                          then
                            let s4 = s3\<lparr>last_sync := now, last_aggregation := period_end\<rparr>
                            in Some (CONSUMPTION_SUCCESS, s4,
                                     [send, StorageWrite s4,
                                      Log 2 ''Consumption data synced successfully''])
                          else Some (CONSUMPTION_ERROR_API_ERROR, s3,
                                     [send, Log 0 ''Failed to sync consumption data'']))"

section \<open>Public API\<close>

text \<open>
  The number of events that fit into the block of
  \<open>malloc(ring_buffer_size * sizeof(consumption_event_t))\<close>. The product is computed in
  \<open>size_t\<close>; \<open>sizeof(consumption_event_t)\<close> is 12 (two \<open>uint32_t\<close> and one \<open>uint8_t\<close>,
  padded to the alignment 4). With the 32-bit \<open>size_t\<close> of the microcontroller targets
  the product wraps around at \<open>2 ^ 32\<close>, so that a large capacity gets a block that is
  too small. With a 64-bit \<open>size_t\<close> nothing wraps; both give \<open>ring_buffer_size\<close>
  elements when \<open>ring_buffer_size * 12 < 2 ^ 32\<close>, as for every validated capacity.
\<close>

definition malloc_elements :: "u32 \<Rightarrow> nat" where
  "malloc_elements n = (unat n * 12 mod 2 ^ 32) div 12"

text \<open>
  \<open>consumption_init\<close>. \<open>cfg\<close> is the argument (\<open>None\<close> the null pointer), \<open>loaded\<close>
  what \<open>load_state\<close> reads into \<open>g_state\<close> (\<open>None\<close> when it returns false), \<open>now\<close> the
  clock, \<open>mem\<close> the result of \<open>malloc\<close>: \<open>None\<close> the null pointer, otherwise the
  contents of the fresh block, which has \<open>malloc_elements ring_buffer_size\<close> elements.
\<close>

definition consumption_init ::
  "consumption_config option \<Rightarrow> consumption_state option \<Rightarrow> u32
     \<Rightarrow> (nat \<Rightarrow> consumption_event) option \<Rightarrow> consumption_state
     \<Rightarrow> consumption_error \<times> consumption_state \<times> platform_call list" where
  "consumption_init cfg loaded now mem s =
     (if initialized s then (CONSUMPTION_SUCCESS, s, [])
      else if cfg \<noteq> None \<and> \<not> validate_config cfg
      then (CONSUMPTION_ERROR_INVALID_CONFIG, s, [])
      else
        let c = (case cfg of Some c \<Rightarrow> c | None \<Rightarrow> init_default_config);
            s1 = (case loaded of
                    Some blob \<Rightarrow> blob
                  | None \<Rightarrow> zero_state\<lparr>config := c, last_aggregation := now\<rparr>)
        in case mem of
             None \<Rightarrow> (CONSUMPTION_ERROR_MEMORY_ERROR, s1\<lparr>event_buffer := []\<rparr>, [])
           | Some block \<Rightarrow>
               (CONSUMPTION_SUCCESS,
                s1\<lparr>event_buffer := map block [0..<malloc_elements (ring_buffer_size (config s1))],
                   initialized := True\<rparr>,
                [Log 2 ''Consumption module initialized'']))"

text \<open>
  What the platform answers during one call of \<open>consumption_on_dispense\<close>: the clock
  when the event is stamped, the clock at the interval check, and the clock and the
  result of the send inside \<open>sync_to_api\<close>.
\<close>

record dispense_env =
  t_event :: u32
  t_check :: u32
  t_sync :: u32
  send_ok :: bool

definition consumption_on_dispense ::
  "dispense_env \<Rightarrow> u32 \<Rightarrow> u8 \<Rightarrow> consumption_state
     \<Rightarrow> (consumption_error \<times> consumption_state \<times> platform_call list) option" where
  "consumption_on_dispense env mid product_id s =
     (if \<not> initialized s then Some (CONSUMPTION_ERROR_INVALID_CONFIG, s, [])
      else if mid \<noteq> machine_id (config s)
      then Some (CONSUMPTION_ERROR_INVALID_PARAMETER, s, [])
      else if product_id = 0 then Some (CONSUMPTION_ERROR_INVALID_PARAMETER, s, [])
      else
        let event = \<lparr>ev_timestamp = t_event env, ev_machine_id = mid,
                     ev_product_id = product_id\<rparr>
        in case add_event_to_buffer event s of
             None \<Rightarrow> None
           | Some (result, s1) \<Rightarrow>
               if result \<noteq> CONSUMPTION_SUCCESS then Some (result, s1, [])
               else
                 let s2 = s1\<lparr>total_events := total_events s1 + 1\<rparr>
                 in if enable_external_api (config s2)
                    then
                      let now = t_check env
                      in if now - last_sync s2 \<ge> aggregation_interval (config s2)
                         then
                           case sync_to_api (t_sync env) (send_ok env) s2 of
                             None \<Rightarrow> None
                           | Some (r, s3, calls) \<Rightarrow> Some (CONSUMPTION_SUCCESS, s3, calls)
                         else Some (CONSUMPTION_SUCCESS, s2, [])
                    else Some (CONSUMPTION_SUCCESS, s2, []))"

text \<open>
  \<open>consumption_deinit\<close>; \<open>now\<close> and \<open>success\<close> are the platform's answers inside the
  final \<open>sync_to_api\<close>. \<open>save_state\<close> runs before the buffer is freed and the flag
  cleared, so the state written still has \<open>initialized\<close> set.
\<close>

definition consumption_deinit ::
  "u32 \<Rightarrow> bool \<Rightarrow> consumption_state
     \<Rightarrow> (consumption_error \<times> consumption_state \<times> platform_call list) option" where
  "consumption_deinit now success s =
     (if \<not> initialized s then Some (CONSUMPTION_SUCCESS, s, [])
      else
        case (if enable_external_api (config s) then sync_to_api now success s
              else Some (CONSUMPTION_SUCCESS, s, [])) of
          None \<Rightarrow> None
        | Some (r, s1, calls) \<Rightarrow>
            Some (CONSUMPTION_SUCCESS, s1\<lparr>event_buffer := [], initialized := False\<rparr>,
                  calls @ [StorageWrite s1, Log 2 ''Consumption module deinitialized'']))"

text \<open>
  \<open>consumption_get_stats\<close>: the three flags say which of the pointers are not null;
  the values stored through them are returned.
\<close>

definition consumption_get_stats ::
  "bool \<Rightarrow> bool \<Rightarrow> bool \<Rightarrow> consumption_state
     \<Rightarrow> consumption_error \<times> consumption_state \<times> (u32 option \<times> u32 option \<times> u32 option)" where
  "consumption_get_stats want_total want_buffered want_last_sync s =
     (if \<not> initialized s then (CONSUMPTION_ERROR_INVALID_CONFIG, s, (None, None, None))
      else (CONSUMPTION_SUCCESS, s,
            (if want_total then Some (total_events s) else None,
             if want_buffered then Some (buffer_count s) else None,
             if want_last_sync then Some (last_sync s) else None)))"

definition consumption_force_sync ::
  "u32 \<Rightarrow> bool \<Rightarrow> consumption_state
     \<Rightarrow> (consumption_error \<times> consumption_state \<times> platform_call list) option" where
  "consumption_force_sync now success s =
     (if \<not> initialized s then Some (CONSUMPTION_ERROR_INVALID_CONFIG, s, [])
      else sync_to_api now success s)"

definition consumption_update_config ::
  "consumption_config option \<Rightarrow> consumption_state
     \<Rightarrow> consumption_error \<times> consumption_state \<times> platform_call list" where
  "consumption_update_config cfg s =
     (case cfg of
        None \<Rightarrow> (CONSUMPTION_ERROR_INVALID_CONFIG, s, [])
      | Some c \<Rightarrow>
          if \<not> validate_config cfg then (CONSUMPTION_ERROR_INVALID_CONFIG, s, [])
          else if ring_buffer_size c \<noteq> ring_buffer_size (config s)
          then (CONSUMPTION_ERROR_INVALID_PARAMETER, s, [])
          else
            let s1 = s\<lparr>config := c\<rparr>
            in (CONSUMPTION_SUCCESS, s1, [StorageWrite s1]))"

definition consumption_get_config ::
  "bool \<Rightarrow> consumption_state \<Rightarrow> consumption_error \<times> consumption_config option" where
  "consumption_get_config want s =
     (if \<not> want then (CONSUMPTION_ERROR_INVALID_PARAMETER, None)
      else (CONSUMPTION_SUCCESS, Some (config s)))"

section \<open>Vocabulary of the properties\<close>

text \<open>
  The ring buffer is consistent when the capacity is positive, the block has as many
  elements as the capacity, \<open>buffer_tail\<close> is an index into it, at most \<open>capacity\<close>
  events are live, and \<open>buffer_head\<close> is \<open>buffer_count\<close> places after
  \<open>buffer_tail\<close>, modulo the capacity. In such a state no access of
  \<open>add_event_to_buffer\<close> or \<open>aggregate_events\<close> leaves the block.
\<close>

definition ring_ok :: "consumption_state \<Rightarrow> bool" where
  "ring_ok s \<longleftrightarrow>
     0 < ring_buffer_size (config s)
     \<and> length (event_buffer s) = unat (ring_buffer_size (config s))
     \<and> buffer_tail s < ring_buffer_size (config s)
     \<and> buffer_count s \<le> ring_buffer_size (config s)
     \<and> unat (buffer_head s)
         = (unat (buffer_tail s) + unat (buffer_count s)) mod unat (ring_buffer_size (config s))"

text \<open>The buffered events, oldest first: \<open>buffer_count\<close> slots starting at \<open>buffer_tail\<close>.\<close>

definition buffered :: "consumption_state \<Rightarrow> consumption_event list" where
  "buffered s =
     map (\<lambda>i. event_buffer s ! ((unat (buffer_tail s) + i) mod unat (ring_buffer_size (config s))))
       [0..<unat (buffer_count s)]"

text \<open>The state in which \<open>add_event_to_buffer\<close> leaves a consistent ring buffer.\<close>

definition pushed :: "consumption_event \<Rightarrow> consumption_state \<Rightarrow> consumption_state" where
  "pushed event s =
     (let cap = ring_buffer_size (config s) in
      if buffer_count s = cap
      then s\<lparr>buffer_tail := (buffer_tail s + 1) mod cap,
             event_buffer := (event_buffer s)[unat (buffer_head s) := event],
             buffer_head := (buffer_head s + 1) mod cap\<rparr>
      else s\<lparr>event_buffer := (event_buffer s)[unat (buffer_head s) := event],
             buffer_head := (buffer_head s + 1) mod cap,
             buffer_count := buffer_count s + 1\<rparr>)"

text \<open>An event lies in the window when its timestamp does, both ends included.\<close>

definition in_window :: "u32 \<Rightarrow> u32 \<Rightarrow> consumption_event \<Rightarrow> bool" where
  "in_window start_time end_time e \<longleftrightarrow>
     start_time \<le> ev_timestamp e \<and> ev_timestamp e \<le> end_time"

text \<open>
  A state used to instantiate the theorems: capacity 3, three buffered events stamped
  10, 20 and 30 with products 1, 2 and 1.
\<close>

definition example_config :: consumption_config where
  "example_config =
     \<lparr>machine_id = 11111, enable_external_api = True, ring_buffer_size = 3,
      aggregation_interval = 5, api_endpoint = ''http://sink'', api_key = [],
      max_retry_attempts = 3\<rparr>"

definition example_state :: consumption_state where
  "example_state =
     \<lparr>initialized = True, config = example_config, total_events = 3, buffer_head = 0,
      buffer_tail = 0, buffer_count = 3,
      event_buffer =
        [\<lparr>ev_timestamp = 10, ev_machine_id = 11111, ev_product_id = 1\<rparr>,
         \<lparr>ev_timestamp = 20, ev_machine_id = 11111, ev_product_id = 2\<rparr>,
         \<lparr>ev_timestamp = 30, ev_machine_id = 11111, ev_product_id = 1\<rparr>],
      last_aggregation = 8, last_sync = 8, sync_in_progress = False\<rparr>"

text \<open>The fields that make up the ring buffer, with the configuration that sizes it.\<close>

definition ring_fields ::
  "consumption_state \<Rightarrow> consumption_config \<times> consumption_event list \<times> u32 \<times> u32 \<times> u32" where
  "ring_fields s = (config s, event_buffer s, buffer_head s, buffer_tail s, buffer_count s)"

text \<open>The aggregate of \<open>example_state\<close> over the window from 8 to 25.\<close>

definition example_aggregate :: consumption_aggregate where
  "example_aggregate =
     \<lparr>agg_machine_id = 11111, period_start = 8, period_end = 25, agg_total_events = 2,
      product_counts = (replicate 256 0)[1 := 1, 2 := 1]\<rparr>"

text \<open>Platform answers for one \<open>consumption_on_dispense\<close> call at time 40.\<close>

definition example_env :: dispense_env where
  "example_env = \<lparr>t_event = 40, t_check = 40, t_sync = 40, send_ok = True\<rparr>"

text \<open>Platform answers for a call at time 10, before the interval after 8 has passed.\<close>

definition example_env_early :: dispense_env where
  "example_env_early = \<lparr>t_event = 10, t_check = 10, t_sync = 10, send_ok = True\<rparr>"

text \<open>
  A sequence of \<open>consumption_on_dispense\<close> calls, each with its platform answers, its
  machine id and its product id. The result lists, call by call, the error code
  returned and the state left; it is \<open>None\<close> when some call has no defined behaviour.
\<close>

primrec dispense_run ::
  "(dispense_env \<times> u32 \<times> u8) list \<Rightarrow> consumption_state
     \<Rightarrow> (consumption_error \<times> consumption_state) list option" where
  "dispense_run [] s = Some []"
| "dispense_run (c # cs) s =
     (case c of (env, mid, product_id) \<Rightarrow>
        (case consumption_on_dispense env mid product_id s of
           None \<Rightarrow> None
         | Some (r, s', calls) \<Rightarrow>
             (case dispense_run cs s' of
                None \<Rightarrow> None
              | Some tr \<Rightarrow> Some ((r, s') # tr))))"

text \<open>The state after the last call, and the number of calls that returned success.\<close>

definition final_state ::
  "consumption_state \<Rightarrow> (consumption_error \<times> consumption_state) list \<Rightarrow> consumption_state" where
  "final_state s tr = last (s # map snd tr)"



text \<open>
  A freshly allocated block whose elements are all zero, and the state in which
  \<open>consumption_init\<close> leaves the static initial \<open>g_state\<close> when the storage gives back
  \<open>example_state\<close>.
\<close>

definition example_block :: "nat \<Rightarrow> consumption_event" where
  "example_block i = \<lparr>ev_timestamp = 0, ev_machine_id = 0, ev_product_id = 0\<rparr>"


text \<open>
  The event that an accepted call appends, and the last \<open>n\<close> elements of a list.
\<close>

definition event_of :: "dispense_env \<times> u32 \<times> u8 \<Rightarrow> consumption_event" where
  "event_of c =
     \<lparr>ev_timestamp = t_event (fst c), ev_machine_id = fst (snd c),
      ev_product_id = snd (snd c)\<rparr>"

definition keep_last :: "nat \<Rightarrow> 'a list \<Rightarrow> 'a list" where
  "keep_last n xs = drop (length xs - n) xs"

text \<open>
  The text that the loop over the product counts formats, whether or not it fits into
  \<open>json_buffer\<close>: the arguments are those of \<open>json_products\<close>.
\<close>

primrec products_text :: "nat \<Rightarrow> nat \<Rightarrow> u32 list \<Rightarrow> bool \<Rightarrow> string" where
  \<open>products_text 0 i counts first = []\<close>
| \<open>products_text (Suc n) i counts first =
     (if counts ! i > 0
      then (if \<not> first then '','' else []) @ ''"'' @ decimal i @ ''":''
           @ decimal (unat (counts ! i)) @ products_text n (i + 1) counts False
      else products_text n (i + 1) counts first)\<close>

text \<open>The whole text formatted before the closing braces.\<close>

definition json_body :: "consumption_aggregate \<Rightarrow> string" where
  \<open>json_body aggregate =
     ''{"machine_id":'' @ decimal (unat (agg_machine_id aggregate))
     @ '',"period_start":'' @ decimal (unat (period_start aggregate))
     @ '',"period_end":'' @ decimal (unat (period_end aggregate))
     @ '',"total_events":'' @ decimal (unat (agg_total_events aggregate))
     @ '',"products":{''
     @ products_text 255 1 (product_counts aggregate) True\<close>

text \<open>
  \<open>json_buffer\<close> and \<open>len\<close> after formatting the text \<open>t\<close> without leaving the buffer:
  the first 1023 characters are stored, \<open>len\<close> is the full length.
\<close>

definition jb_of :: "string \<Rightarrow> (string \<times> nat) option" where
  "jb_of t = Some (take 1023 t, length t)"

text \<open>
  A state whose buffer of capacity 255 holds one event for each of the product ids 1 to
  255, all stamped 10.
\<close>

definition crowded_state :: consumption_state where
  "crowded_state =
     \<lparr>initialized = True, config = example_config\<lparr>ring_buffer_size := 255\<rparr>,
      total_events = 255, buffer_head = 0, buffer_tail = 0, buffer_count = 255,
      event_buffer =
        map (\<lambda>i. \<lparr>ev_timestamp = 10, ev_machine_id = 11111, ev_product_id = of_nat (Suc i)\<rparr>)
          [0..<255],
      last_aggregation = 8, last_sync = 8, sync_in_progress = False\<rparr>"

text \<open>A sequence of \<open>consumption_update_config\<close> calls; the result is the state left.\<close>

primrec update_run :: "consumption_config option list \<Rightarrow> consumption_state \<Rightarrow> consumption_state" where
  "update_run [] s = s"
| "update_run (c # cs) s = update_run cs (fst (snd (consumption_update_config c s)))"

text \<open>
  The \<open>products\<close> object in the words of the specification: one entry
  \<open>"<category_id>":<count>\<close> for each product id of the list whose counter is not zero,
  in increasing order, the entries separated by commas.
\<close>

definition product_entries :: "u32 list \<Rightarrow> nat list \<Rightarrow> string list" where
  \<open>product_entries counts js =
     map (\<lambda>j. ''"'' @ decimal j @ ''":'' @ decimal (unat (counts ! j)))
       (filter (\<lambda>j. counts ! j \<noteq> 0) js)\<close>

definition after_comma :: "string \<Rightarrow> string" where
  "after_comma e = '','' @ e"

definition comma_join :: "string list \<Rightarrow> string" where
  "comma_join es = (case es of [] \<Rightarrow> [] | e # rest \<Rightarrow> e @ concat (map after_comma rest))"

text \<open>
  A configuration under which no sync can run past the end of \<open>json_buffer\<close>: the
  external API is disabled, or the capacity is at most 53. The text before the closing
  braces has at most 113 characters outside the entries and at most 17 for each entry,
  there are at most as many entries as buffered events, and \<open>113 + 17 * 53 \<le> 1024\<close>.
\<close>

definition payload_safe :: "consumption_config \<Rightarrow> bool" where
  "payload_safe c \<longleftrightarrow> \<not> enable_external_api c \<or> ring_buffer_size c \<le> 53"

section \<open>The ring buffer\<close>

lemma word_inc_nonzero: fixes x c :: u32 assumes "x < c" shows "x + 1 \<noteq> 0"
  by (metis add.commute assms neg_eq_iff_add_eq_0 word_not_simps(3))

lemma unat_inc:
  fixes x c :: u32
  assumes "x < c"
  shows "unat (x + 1) = Suc (unat x)"
  using word_inc_nonzero [OF assms] by (simp add: unatSuc add.commute)

lemma unat_inc_mod:
  fixes x c :: u32
  assumes "x < c"
  shows "unat ((x + 1) mod c) = Suc (unat x) mod unat c"
  by (simp add: unat_mod unat_inc [OF assms])

lemma mod_ring_distinct:
  fixes t i j c :: nat
  assumes "i < j" "j < c"
  shows "(t + i) mod c \<noteq> (t + j) mod c"
proof
  assume "(t + i) mod c = (t + j) mod c"
  then have "(t + j) mod c = (t + i) mod c" by simp
  then have "c dvd (t + j) - (t + i)"
    using assms by (simp add: mod_eq_dvd_iff_nat)
  then have "c dvd j - i" by simp
  then show False using assms by (auto dest: dvd_imp_le) 
qed

lemma ring_ok_head:
  assumes "ring_ok s"
  shows "buffer_head s < ring_buffer_size (config s)"
proof -
  have "0 < unat (ring_buffer_size (config s))"
    using assms by (simp add: ring_ok_def unat_gt_0 word_neq_0_conv)
  then have "unat (buffer_head s) < unat (ring_buffer_size (config s))"
    using assms by (simp add: ring_ok_def)
  then show ?thesis by (simp add: word_less_nat_alt)
qed

lemma add_event_to_buffer_pushed:
  assumes "ring_ok s"
  shows "add_event_to_buffer event s = Some (CONSUMPTION_SUCCESS, pushed event s)"
proof -
  let ?cap = "ring_buffer_size (config s)"
  have cap: "?cap \<noteq> 0" using assms by (auto simp: ring_ok_def)
  have hd: "unat (buffer_head s) < length (event_buffer s)"
    using ring_ok_head [OF assms] assms by (simp add: ring_ok_def word_less_nat_alt)
  show ?thesis
  proof (cases "buffer_count s = ?cap")
    case True
    then show ?thesis using cap hd
      by (simp add: add_event_to_buffer_def pushed_def Let_def)
  next
    case False
    then have "\<not> ?cap \<le> buffer_count s" using assms by (auto simp: ring_ok_def)
    then show ?thesis using cap hd False
      by (simp add: add_event_to_buffer_def pushed_def Let_def)
  qed
qed

lemma ring_ok_pushed:
  assumes "ring_ok s"
  shows "ring_ok (pushed event s)"
proof -
  let ?cap = "ring_buffer_size (config s)"
  let ?C = "unat ?cap"
  have C: "0 < ?C" using assms by (simp add: ring_ok_def unat_gt_0 word_neq_0_conv)
  have hd: "buffer_head s < ?cap" by (rule ring_ok_head [OF assms])
  have tl: "buffer_tail s < ?cap" using assms by (simp add: ring_ok_def)
  have H: "unat (buffer_head s) = (unat (buffer_tail s) + unat (buffer_count s)) mod ?C"
    using assms by (simp add: ring_ok_def)
  have lt: "(buffer_tail s + 1) mod ?cap < ?cap"
    using C by (simp add: word_less_nat_alt unat_mod)
  show ?thesis
  proof (cases "buffer_count s = ?cap")
    case True
    have "unat ((buffer_head s + 1) mod ?cap)
            = (unat ((buffer_tail s + 1) mod ?cap) + ?C) mod ?C"
      using H True by (simp add: unat_inc_mod [OF hd] unat_inc_mod [OF tl] mod_Suc_eq)
    then show ?thesis using assms True C
      by (simp add: ring_ok_def pushed_def Let_def lt)
  next
    case False
    then have less: "buffer_count s < ?cap" using assms by (auto simp: ring_ok_def)
    have "unat ((buffer_head s + 1) mod ?cap)
            = (unat (buffer_tail s) + unat (buffer_count s + 1)) mod ?C"
      using H by (simp add: unat_inc_mod [OF hd] unat_inc [OF less] mod_Suc_eq)
    then show ?thesis using assms False less
      by (simp add: ring_ok_def pushed_def Let_def inc_le)
  qed
qed

lemma buffered_pushed:
  assumes "ring_ok s"
  shows "buffered (pushed event s)
           = (if buffer_count s = ring_buffer_size (config s)
              then tl (buffered s) else buffered s) @ [event]"
proof -
  let ?cap = "ring_buffer_size (config s)"
  let ?C = "unat ?cap"
  let ?T = "unat (buffer_tail s)"
  let ?N = "unat (buffer_count s)"
  let ?buf = "event_buffer s"
  have C: "0 < ?C" using assms by (simp add: ring_ok_def unat_gt_0 word_neq_0_conv)
  have hd: "buffer_head s < ?cap" by (rule ring_ok_head [OF assms])
  have tl: "buffer_tail s < ?cap" using assms by (simp add: ring_ok_def)
  have T: "?T < ?C" using tl by (simp add: word_less_nat_alt)
  have H: "unat (buffer_head s) = (?T + ?N) mod ?C"
    using assms by (simp add: ring_ok_def)
  have len: "length ?buf = ?C" using assms by (simp add: ring_ok_def)
  show ?thesis
  proof (cases "buffer_count s = ?cap")
    case True
    then have N: "?N = ?C" by simp
    have HT: "unat (buffer_head s) = ?T" using H N T by simp
    have "buffered (pushed event s) = tl (buffered s) @ [event]"
    proof (rule nth_equalityI)
      show "length (buffered (pushed event s)) = length (tl (buffered s) @ [event])"
        using True C by (simp add: buffered_def pushed_def Let_def)
    next
      fix i assume "i < length (buffered (pushed event s))"
      then have i: "i < ?C" using True by (simp add: buffered_def pushed_def Let_def)
      have idx: "(unat ((buffer_tail s + 1) mod ?cap) + i) mod ?C = (?T + Suc i) mod ?C"
        by (simp add: unat_inc_mod [OF tl] mod_add_left_eq)
      show "buffered (pushed event s) ! i = (tl (buffered s) @ [event]) ! i"
      proof (cases "Suc i < ?C")
        case True
        have "(?T + 0) mod ?C \<noteq> (?T + Suc i) mod ?C"
          by (rule mod_ring_distinct) (use True in simp_all)
        then have ne: "(?T + Suc i) mod ?C \<noteq> ?T" using T by simp
        have "buffered (pushed event s) ! i = ?buf ! ((?T + Suc i) mod ?C)"
          using i \<open>buffer_count s = ?cap\<close> ne HT idx
          by (simp add: buffered_def pushed_def Let_def)
        also have "\<dots> = (tl (buffered s) @ [event]) ! i"
          using True N by (simp add: buffered_def nth_append nth_tl)
        finally show ?thesis .
      next
        case False
        then have last: "Suc i = ?C" using i by simp
        then have "(?T + Suc i) mod ?C = ?T" using T by simp
        then have "buffered (pushed event s) ! i = event"
          using i \<open>buffer_count s = ?cap\<close> HT idx T len
          by (simp add: buffered_def pushed_def Let_def)
        moreover have "(tl (buffered s) @ [event]) ! i = event"
          using last N by (simp add: buffered_def nth_append)
        ultimately show ?thesis by simp
      qed
    qed
    then show ?thesis using True by simp
  next
    case False
    then have less: "buffer_count s < ?cap" using assms by (auto simp: ring_ok_def)
    then have N: "?N < ?C" by (simp add: word_less_nat_alt)
    have Hlt: "unat (buffer_head s) < length ?buf" using H C len by simp
    have "buffered (pushed event s) = buffered s @ [event]"
    proof (rule nth_equalityI)
      show "length (buffered (pushed event s)) = length (buffered s @ [event])"
        using False by (simp add: buffered_def pushed_def Let_def unat_inc [OF less])
    next
      fix i assume "i < length (buffered (pushed event s))"
      then have i: "i < Suc ?N"
        using False by (simp add: buffered_def pushed_def Let_def unat_inc [OF less])
      show "buffered (pushed event s) ! i = (buffered s @ [event]) ! i"
      proof (cases "i < ?N")
        case True
        have "(?T + i) mod ?C \<noteq> (?T + ?N) mod ?C"
          by (rule mod_ring_distinct) (use True N in simp_all)
        then have "buffered (pushed event s) ! i = ?buf ! ((?T + i) mod ?C)"
          using True \<open>buffer_count s \<noteq> ?cap\<close> H
          by (simp add: buffered_def pushed_def Let_def unat_inc [OF less] nth_append)
        then show ?thesis using True by (simp add: buffered_def nth_append)
      next
        case False
        then have iN: "i = ?N" using i by simp
        have "buffered (pushed event s) ! i = event"
          using \<open>buffer_count s \<noteq> ?cap\<close> H Hlt iN
          by (simp add: buffered_def pushed_def Let_def unat_inc [OF less] nth_append)
        then show ?thesis using iN by (simp add: buffered_def nth_append)
      qed
    qed
    then show ?thesis using False by simp
  qed
qed

lemma map_upt_shift: "map f [0..<Suc n] = f 0 # map (\<lambda>i. f (Suc i)) [0..<n]"
  by (simp only: map_upt_Suc)

lemma aggregate_loop_slice:
  assumes cap: "ring_buffer_size (config s) \<noteq> 0"
    and len: "length (event_buffer s) = unat (ring_buffer_size (config s))"
    and idx: "index < ring_buffer_size (config s)"
    and pc: "length (product_counts a) = 256"
  shows "\<exists>a'. aggregate_loop n index st en s a = Some a'
           \<and> agg_total_events a'
               = agg_total_events a
                 + of_nat (length (filter (in_window st en)
                     (map (\<lambda>i. event_buffer s
                        ! ((unat index + i) mod unat (ring_buffer_size (config s)))) [0..<n])))
           \<and> (\<forall>c<256. product_counts a' ! c
                 = product_counts a ! c
                   + of_nat (length (filter (\<lambda>e. in_window st en e \<and> unat (ev_product_id e) = c)
                       (map (\<lambda>i. event_buffer s
                          ! ((unat index + i) mod unat (ring_buffer_size (config s)))) [0..<n]))))
           \<and> length (product_counts a') = 256
           \<and> agg_machine_id a' = agg_machine_id a
           \<and> period_start a' = period_start a \<and> period_end a' = period_end a"
  using idx pc
proof (induction n arbitrary: index a)
  case 0
  then show ?case by simp
next
  case (Suc n)
  let ?cap = "ring_buffer_size (config s)"
  let ?C = "unat ?cap"
  let ?e = "event_buffer s ! unat index"
  let ?a1 = "(if ev_timestamp ?e \<ge> st \<and> ev_timestamp ?e \<le> en
               then
                 let a0 = a\<lparr>agg_total_events := agg_total_events a + 1\<rparr>
                 in if unat (ev_product_id ?e) < 256
                    then a0\<lparr>product_counts :=
                             (product_counts a0)[unat (ev_product_id ?e) :=
                                product_counts a0 ! unat (ev_product_id ?e) + 1]\<rparr>
                    else a0
               else a)"
  let ?idx' = "(index + 1) mod ?cap"
  have C: "0 < ?C" using cap by (simp add: unat_gt_0)
  have I: "unat index < ?C" using Suc.prems(1) by (simp add: word_less_nat_alt)
  have idx': "?idx' < ?cap" using C by (simp add: word_less_nat_alt unat_mod)
  have uidx': "unat ?idx' = Suc (unat index) mod ?C"
    by (rule unat_inc_mod [OF Suc.prems(1)])
  have pc1: "length (product_counts ?a1) = 256" using Suc.prems(2) by (simp add: Let_def)
  have step: "aggregate_loop (Suc n) index st en s a = aggregate_loop n ?idx' st en s ?a1"
    using I len cap by (simp add: Let_def)
  have shift: "map (\<lambda>i. event_buffer s ! ((unat index + i) mod ?C)) [0..<Suc n]
                 = ?e # map (\<lambda>i. event_buffer s ! ((unat ?idx' + i) mod ?C)) [0..<n]"
    using I by (simp only: map_upt_shift) (simp add: uidx' mod_add_left_eq)
  have pid: "unat (ev_product_id ?e) < 256"
    using unsigned_less [of "ev_product_id ?e", where ?'a = nat] by simp
  from Suc.IH [OF idx' pc1] obtain a' where
    run: "aggregate_loop n ?idx' st en s ?a1 = Some a'"
    and tot: "agg_total_events a'
               = agg_total_events ?a1
                 + of_nat (length (filter (in_window st en)
                     (map (\<lambda>i. event_buffer s ! ((unat ?idx' + i) mod ?C)) [0..<n])))"
    and cnt: "\<forall>c<256. product_counts a' ! c
                 = product_counts ?a1 ! c
                   + of_nat (length (filter (\<lambda>e. in_window st en e \<and> unat (ev_product_id e) = c)
                       (map (\<lambda>i. event_buffer s ! ((unat ?idx' + i) mod ?C)) [0..<n])))"
    and rest: "length (product_counts a') = 256" "agg_machine_id a' = agg_machine_id ?a1"
      "period_start a' = period_start ?a1" "period_end a' = period_end ?a1"
    by blast
  have tot': "agg_total_events a'
               = agg_total_events a
                 + of_nat (length (filter (in_window st en)
                     (map (\<lambda>i. event_buffer s ! ((unat index + i) mod ?C)) [0..<Suc n])))"
    unfolding shift using tot by (simp add: in_window_def Let_def)
  have cnt': "\<forall>c<256. product_counts a' ! c
                 = product_counts a ! c
                   + of_nat (length (filter (\<lambda>e. in_window st en e \<and> unat (ev_product_id e) = c)
                       (map (\<lambda>i. event_buffer s ! ((unat index + i) mod ?C)) [0..<Suc n])))"
    unfolding shift using cnt pid Suc.prems(2)
    by (auto simp: in_window_def Let_def nth_list_update)
  show ?case
    using run tot' cnt' rest unfolding step by (simp add: Let_def)
qed

lemma example_state_ring_ok: "ring_ok example_state"
  by (simp add: ring_ok_def example_state_def example_config_def)

lemma buffered_example_state:
  "buffered example_state =
     [\<lparr>ev_timestamp = 10, ev_machine_id = 11111, ev_product_id = 1\<rparr>,
      \<lparr>ev_timestamp = 20, ev_machine_id = 11111, ev_product_id = 2\<rparr>,
      \<lparr>ev_timestamp = 30, ev_machine_id = 11111, ev_product_id = 1\<rparr>]"
  by (simp add: buffered_def example_state_def example_config_def upt_rec)

lemma unat_of_nat_u32: "n < 2 ^ 32 \<Longrightarrow> unat (of_nat n :: u32) = n"
  by (simp add: unat_of_nat)

lemma aggregate_events_words:
  assumes "ring_ok s"
  shows "\<exists>agg. aggregate_events st en s = Some (agg, s)
           \<and> agg_total_events agg = of_nat (length (filter (in_window st en) (buffered s)))
           \<and> (\<forall>c<256. product_counts agg ! c
                 = of_nat (length (filter (\<lambda>e. in_window st en e \<and> unat (ev_product_id e) = c)
                     (buffered s))))
           \<and> length (product_counts agg) = 256
           \<and> agg_machine_id agg = machine_id (config s)
           \<and> period_start agg = st \<and> period_end agg = en"
proof -
  let ?a0 = "\<lparr>agg_machine_id = machine_id (config s), period_start = st,
             period_end = en, agg_total_events = 0, product_counts = replicate 256 0\<rparr>"
  have cap: "ring_buffer_size (config s) \<noteq> 0" using assms by (auto simp: ring_ok_def)
  have len: "length (event_buffer s) = unat (ring_buffer_size (config s))"
    using assms by (simp add: ring_ok_def)
  have tl: "buffer_tail s < ring_buffer_size (config s)" using assms by (simp add: ring_ok_def)
  have pc: "length (product_counts ?a0) = 256" by simp
  from aggregate_loop_slice [OF cap len tl pc, of "unat (buffer_count s)" st en]
  obtain a' where
    run: "aggregate_loop (unat (buffer_count s)) (buffer_tail s) st en s ?a0 = Some a'"
    and tot: "agg_total_events a' = of_nat (length (filter (in_window st en) (buffered s)))"
    and cnt: "\<forall>c<256. product_counts a' ! c
                 = of_nat (length (filter (\<lambda>e. in_window st en e \<and> unat (ev_product_id e) = c)
                     (buffered s)))"
    and rest: "length (product_counts a') = 256" "agg_machine_id a' = machine_id (config s)"
      "period_start a' = st" "period_end a' = en"
    by (auto simp: buffered_def)
  have "aggregate_events st en s = Some (a', s)"
    using run by (simp add: aggregate_events_def)
  then show ?thesis using tot cnt rest by blast
qed

lemma filter_buffered_bound: "length (filter P (buffered s)) < 2 ^ 32"
proof -
  have "length (filter P (buffered s)) \<le> length (buffered s)" by (rule length_filter_le)
  also have "\<dots> = unat (buffer_count s)" by (simp add: buffered_def)
  also have "\<dots> < 2 ^ 32" using unsigned_less [of "buffer_count s", where ?'a = nat] by simp
  finally show ?thesis .
qed

section \<open>The payload\<close>

lemma snprintf_at_None [simp]: "snprintf_at None out = None"
  by (simp add: snprintf_at_def)

lemma snprintf_at_jb_of:
  "snprintf_at (jb_of t) out = (if 1024 < length t then None else jb_of (t @ out))"
  by (simp add: snprintf_at_def jb_of_def)

lemma jb_of_Nil: "Some ([], 0) = jb_of []"
  by (simp add: jb_of_def)

lemma json_products_None [simp]: "json_products n i counts None first = None"
  by (induction n arbitrary: i first) (simp_all add: Let_def)

lemma json_products_jb_of:
  "json_products n i counts (jb_of t) first = None
   \<or> json_products n i counts (jb_of t) first = jb_of (t @ products_text n i counts first)"
proof (induction n arbitrary: i t first)
  case 0
  then show ?case by simp
next
  case (Suc n)
  show ?case
  proof (cases "counts ! i > 0")
    case False
    then show ?thesis using Suc.IH [of "i + 1" t first] by simp
  next
    case True
    let ?sep = "if \<not> first then '','' else []"
    let ?entry = "[CHR 0x22] @ decimal i @ [CHR 0x22, CHR '':''] @ decimal (unat (counts ! i))"
    have j1: "(if \<not> first then snprintf_at (jb_of t) '','' else jb_of t) = None
              \<or> (if \<not> first then snprintf_at (jb_of t) '','' else jb_of t) = jb_of (t @ ?sep)"
      by (simp add: snprintf_at_jb_of)
    then show ?thesis
    proof
      assume "(if \<not> first then snprintf_at (jb_of t) '','' else jb_of t) = None"
      then show ?thesis using True by (simp add: Let_def)
    next
      assume a: "(if \<not> first then snprintf_at (jb_of t) '','' else jb_of t) = jb_of (t @ ?sep)"
      show ?thesis
      proof (cases "1024 < length (t @ ?sep)")
        case True
        then have "snprintf_at (jb_of (t @ ?sep)) ?entry = None"
          by (simp only: snprintf_at_jb_of if_True)
        then show ?thesis using \<open>counts ! i > 0\<close> a by (simp add: Let_def)
      next
        case False
        then have "snprintf_at (jb_of (t @ ?sep)) ?entry = jb_of ((t @ ?sep) @ ?entry)"
          by (simp only: snprintf_at_jb_of if_False)
        then show ?thesis
          using \<open>counts ! i > 0\<close> a Suc.IH [of "i + 1" "(t @ ?sep) @ ?entry" False]
          by (simp add: Let_def)
      qed
    qed
  qed
qed

lemma build_json_cases:
  "build_json aggregate = None
   \<or> (length (json_body aggregate) \<le> 1024
       \<and> build_json aggregate = jb_of (json_body aggregate @ ''}}''))"
proof -
  let ?h = "[CHR ''{'', CHR 0x22] @ ''machine_id'' @ [CHR 0x22, CHR '':'']
              @ decimal (unat (agg_machine_id aggregate))
              @ [CHR '','', CHR 0x22] @ ''period_start'' @ [CHR 0x22, CHR '':'']
              @ decimal (unat (period_start aggregate))
              @ [CHR '','', CHR 0x22] @ ''period_end'' @ [CHR 0x22, CHR '':'']
              @ decimal (unat (period_end aggregate))
              @ [CHR '','', CHR 0x22] @ ''total_events'' @ [CHR 0x22, CHR '':'']
              @ decimal (unat (agg_total_events aggregate))"
  let ?p = "[CHR '','', CHR 0x22] @ ''products'' @ [CHR 0x22, CHR '':'', CHR ''{'']"
  let ?jb1 = "snprintf_at (snprintf_at (Some ([], 0)) ?h) ?p"
  have b: "json_body aggregate
             = (?h @ ?p) @ products_text 255 1 (product_counts aggregate) True"
    by (simp add: json_body_def)
  have bj: "build_json aggregate
              = snprintf_at (json_products 255 1 (product_counts aggregate) ?jb1 True) ''}}''"
    by (simp add: build_json_def Let_def)
  have j0: "snprintf_at (Some ([], 0)) ?h = jb_of ?h"
    unfolding jb_of_Nil snprintf_at_jb_of by simp
  have j1: "?jb1 = None \<or> ?jb1 = jb_of (?h @ ?p)"
    unfolding j0 snprintf_at_jb_of by simp
  then show ?thesis
  proof
    assume "?jb1 = None"
    then show ?thesis unfolding bj by simp
  next
    assume a: "?jb1 = jb_of (?h @ ?p)"
    from json_products_jb_of [of 255 1 "product_counts aggregate" "?h @ ?p" True]
    show ?thesis
    proof
      assume "json_products 255 1 (product_counts aggregate) (jb_of (?h @ ?p)) True = None"
      then show ?thesis unfolding bj a by simp
    next
      assume "json_products 255 1 (product_counts aggregate) (jb_of (?h @ ?p)) True
                = jb_of ((?h @ ?p) @ products_text 255 1 (product_counts aggregate) True)"
      then have "build_json aggregate = snprintf_at (jb_of (json_body aggregate)) ''}}''"
        unfolding bj a b by simp
      then show ?thesis by (simp add: snprintf_at_jb_of)
    qed
  qed
qed

lemma decimal_length: "1 \<le> length (decimal n)"
  by (subst decimal.simps) simp

lemma products_text_length:
  "6 * length (filter (\<lambda>j. counts ! j > 0) [i..<i + n])
     \<le> length (products_text n i counts first) + (if first then 1 else 0)"
proof (induction n arbitrary: i first)
  case 0
  then show ?case by simp
next
  case (Suc n)
  have u: "[i..<i + Suc n] = i # [i + 1..<(i + 1) + n]"
    by (simp add: upt_conv_Cons)
  show ?case
  proof (cases "counts ! i > 0")
    case True
    have "6 * length (filter (\<lambda>j. counts ! j > 0) [i + 1..<(i + 1) + n])
            \<le> length (products_text n (i + 1) counts False)"
      using Suc.IH [of "i + 1" False] by simp
    then show ?thesis
      unfolding u using True decimal_length [of i] decimal_length [of "unat (counts ! i)"]
      by (cases first) simp_all
  next
    case False
    then show ?thesis unfolding u using Suc.IH [of "i + 1" first] by simp
  qed
qed

lemma json_body_length:
  "77 + length (products_text 255 1 (product_counts aggregate) True)
     \<le> length (json_body aggregate)"
  using decimal_length [of "unat (agg_machine_id aggregate)"]
    decimal_length [of "unat (period_start aggregate)"]
    decimal_length [of "unat (period_end aggregate)"]
    decimal_length [of "unat (agg_total_events aggregate)"]
  by (simp add: json_body_def)

lemma build_json_overrun:
  assumes "160 \<le> length (filter (\<lambda>j. product_counts aggregate ! j > 0) [1..<256])"
  shows "build_json aggregate = None"
proof -
  have "6 * length (filter (\<lambda>j. product_counts aggregate ! j > 0) [1..<1 + 255])
          \<le> length (products_text 255 1 (product_counts aggregate) True) + 1"
    using products_text_length [of "product_counts aggregate" 1 255 True] by simp
  then have "959 \<le> length (products_text 255 1 (product_counts aggregate) True)"
    using assms by simp
  then have "1024 < length (json_body aggregate)"
    using json_body_length [of aggregate] by simp
  then show ?thesis using build_json_cases [of aggregate] by auto
qed

lemma json_products_fits:
  "length (t @ products_text n i counts first) \<le> 1024
     \<Longrightarrow> json_products n i counts (jb_of t) first = jb_of (t @ products_text n i counts first)"
proof (induction n arbitrary: i t first)
  case 0
  then show ?case by simp
next
  case (Suc n)
  show ?case
  proof (cases "counts ! i > 0")
    case False
    then show ?thesis using Suc.IH [of t "i + 1" first] Suc.prems by simp
  next
    case True
    let ?sep = "if \<not> first then '','' else []"
    let ?entry = "[CHR 0x22] @ decimal i @ [CHR 0x22, CHR '':''] @ decimal (unat (counts ! i))"
    have l: "length (((t @ ?sep) @ ?entry) @ products_text n (i + 1) counts False) \<le> 1024"
      using Suc.prems True by simp
    then have l1: "\<not> 1024 < length t" "\<not> 1024 < length (t @ ?sep)" by simp_all
    have j1: "(if \<not> first then snprintf_at (jb_of t) '','' else jb_of t) = jb_of (t @ ?sep)"
      using l1(1) by (simp add: snprintf_at_jb_of)
    have j2: "snprintf_at (jb_of (t @ ?sep)) ?entry = jb_of ((t @ ?sep) @ ?entry)"
      using l1(2) by (simp only: snprintf_at_jb_of if_False)
    show ?thesis
      using True j1 j2 Suc.IH [OF l] by (simp add: Let_def)
  qed
qed

lemma build_json_defined:
  assumes "length (json_body aggregate) \<le> 1024"
  shows "build_json aggregate = jb_of (json_body aggregate @ ''}}'')"
proof -
  let ?h = "[CHR ''{'', CHR 0x22] @ ''machine_id'' @ [CHR 0x22, CHR '':'']
              @ decimal (unat (agg_machine_id aggregate))
              @ [CHR '','', CHR 0x22] @ ''period_start'' @ [CHR 0x22, CHR '':'']
              @ decimal (unat (period_start aggregate))
              @ [CHR '','', CHR 0x22] @ ''period_end'' @ [CHR 0x22, CHR '':'']
              @ decimal (unat (period_end aggregate))
              @ [CHR '','', CHR 0x22] @ ''total_events'' @ [CHR 0x22, CHR '':'']
              @ decimal (unat (agg_total_events aggregate))"
  let ?p = "[CHR '','', CHR 0x22] @ ''products'' @ [CHR 0x22, CHR '':'', CHR ''{'']"
  let ?jb1 = "snprintf_at (snprintf_at (Some ([], 0)) ?h) ?p"
  have b: "json_body aggregate
             = (?h @ ?p) @ products_text 255 1 (product_counts aggregate) True"
    by (simp add: json_body_def)
  have bj: "build_json aggregate
              = snprintf_at (json_products 255 1 (product_counts aggregate) ?jb1 True) ''}}''"
    by (simp add: build_json_def Let_def)
  have l: "length ((?h @ ?p) @ products_text 255 1 (product_counts aggregate) True) \<le> 1024"
    using assms unfolding b by simp
  then have lh: "\<not> 1024 < length ?h" by simp
  have j0: "snprintf_at (Some ([], 0)) ?h = jb_of ?h"
    unfolding jb_of_Nil snprintf_at_jb_of by simp
  have j1: "?jb1 = jb_of (?h @ ?p)"
    unfolding j0 using lh by (simp only: snprintf_at_jb_of if_False)
  have j2: "json_products 255 1 (product_counts aggregate) (jb_of (?h @ ?p)) True
              = jb_of (json_body aggregate)"
    unfolding b by (rule json_products_fits [OF l])
  have "build_json aggregate = snprintf_at (jb_of (json_body aggregate)) ''}}''"
    unfolding bj j1 j2 ..
  also have "\<dots> = jb_of (json_body aggregate @ ''}}'')"
    using assms by (simp add: snprintf_at_jb_of)
  finally show ?thesis .
qed

lemma build_json_fits:
  assumes "length (json_body aggregate @ ''}}'') \<le> 1023"
  shows "build_json aggregate
           = Some (json_body aggregate @ ''}}'', length (json_body aggregate @ ''}}''))"
proof -
  have "length (json_body aggregate) \<le> 1024" using assms by simp
  from build_json_defined [OF this] show ?thesis using assms by (simp add: jb_of_def)
qed

lemma decimal_length_le: "n < 10 ^ k \<Longrightarrow> 0 < k \<Longrightarrow> length (decimal n) \<le> k"
proof (induction k arbitrary: n)
  case 0
  then show ?case by simp
next
  case (Suc k)
  show ?case
  proof (cases "n < 10")
    case True
    then show ?thesis by (subst decimal.simps) simp
  next
    case False
    then have k: "0 < k" using Suc.prems(1) by (cases k) simp_all
    have "n div 10 < 10 ^ k" using Suc.prems(1) by (simp add: less_mult_imp_div_less mult.commute)
    from Suc.IH [OF this k] show ?thesis using False by (subst decimal.simps) simp
  qed
qed

lemma decimal_length_u32: "length (decimal (unat (w :: u32))) \<le> 10"
proof -
  have "unat w < 2 ^ 32" using unsigned_less [of w, where ?'a = nat] by simp
  then have "unat w < 10 ^ 10" by simp
  then show ?thesis by (rule decimal_length_le) simp
qed

lemma decimal_length_index: "i < 256 \<Longrightarrow> length (decimal i) \<le> 3"
  by (rule decimal_length_le) simp_all

lemma products_text_upper:
  "i + n \<le> 256
     \<Longrightarrow> length (products_text n i counts first)
           \<le> 17 * length (filter (\<lambda>j. counts ! j > 0) [i..<i + n])"
proof (induction n arbitrary: i first)
  case 0
  then show ?case by simp
next
  case (Suc n)
  have u: "[i..<i + Suc n] = i # [i + 1..<(i + 1) + n]"
    by (simp add: upt_conv_Cons)
  have ih: "length (products_text n (i + 1) counts f)
              \<le> 17 * length (filter (\<lambda>j. counts ! j > 0) [i + 1..<(i + 1) + n])" for f
    using Suc.IH [of "i + 1" f] Suc.prems by simp
  show ?case
  proof (cases "counts ! i > 0")
    case True
    have "i < 256" using Suc.prems by simp
    then show ?thesis
      unfolding u using True ih [of False] decimal_length_index [of i]
        decimal_length_u32 [of "counts ! i"]
      by (simp del: upt_Suc)
  next
    case False
    then show ?thesis unfolding u using ih [of first] by (simp del: upt_Suc)
  qed
qed

lemma json_body_upper:
  "length (json_body aggregate)
     \<le> 113 + 17 * length (filter (\<lambda>j. product_counts aggregate ! j > 0) [1..<256])"
  using decimal_length_u32 [of "agg_machine_id aggregate"]
    decimal_length_u32 [of "period_start aggregate"]
    decimal_length_u32 [of "period_end aggregate"]
    decimal_length_u32 [of "agg_total_events aggregate"]
    products_text_upper [of 1 255 "product_counts aggregate" True]
  by (simp add: json_body_def)

lemma products_text_entries:
  "products_text n i counts first
     = (if first then comma_join (product_entries counts [i..<i + n])
        else concat (map after_comma (product_entries counts [i..<i + n])))"
proof (induction n arbitrary: i first)
  case 0
  then show ?case by (simp add: comma_join_def product_entries_def)
next
  case (Suc n)
  have u: "[i..<i + Suc n] = i # [i + 1..<(i + 1) + n]"
    by (simp add: upt_conv_Cons)
  show ?case
  proof (cases "counts ! i > 0")
    case True
    then have nz: "counts ! i \<noteq> 0" by auto
    show ?thesis
      unfolding u using True nz Suc.IH [of "i + 1" False]
      by (simp add: comma_join_def product_entries_def after_comma_def [of "_ # _"]
          del: upt_Suc)
  next
    case False
    then have z: "counts ! i = 0" using word_neq_0_conv [of "counts ! i"] by blast
    show ?thesis
      unfolding u using False z Suc.IH [of "i + 1" first]
      by (simp add: product_entries_def del: upt_Suc)
  qed
qed

lemma json_body_products:
  \<open>json_body aggregate
     = ''{"machine_id":'' @ decimal (unat (agg_machine_id aggregate))
       @ '',"period_start":'' @ decimal (unat (period_start aggregate))
       @ '',"period_end":'' @ decimal (unat (period_end aggregate))
       @ '',"total_events":'' @ decimal (unat (agg_total_events aggregate))
       @ '',"products":{''
       @ comma_join (product_entries (product_counts aggregate) [1..<256])\<close>
  using products_text_entries [of 255 1 "product_counts aggregate" True]
  by (simp add: json_body_def)

lemma crowded_state_ring_ok: "ring_ok crowded_state"
  by (simp add: ring_ok_def crowded_state_def example_config_def)

lemma buffered_crowded_state: "buffered crowded_state = event_buffer crowded_state"
  by (rule nth_equalityI) (simp_all add: buffered_def crowded_state_def example_config_def)

lemma crowded_state_product:
  assumes "1 \<le> c" and "c \<le> 255"
  shows "filter (\<lambda>e. in_window 8 25 e \<and> unat (ev_product_id e) = c) (buffered crowded_state)
           \<noteq> []"
proof -
  let ?e = "\<lparr>ev_timestamp = 10, ev_machine_id = 11111, ev_product_id = of_nat (Suc (c - 1))\<rparr>"
  have "?e \<in> (\<lambda>i. \<lparr>ev_timestamp = 10, ev_machine_id = 11111,
                      ev_product_id = of_nat (Suc i)\<rparr>) ` set [0..<255]"
    by (rule image_eqI [where x = "c - 1"]) (use assms in simp_all)
  then have "?e \<in> set (buffered crowded_state)"
    unfolding buffered_crowded_state by (simp only: crowded_state_def set_map
        consumption_state.simps)
  moreover have "unat (of_nat c :: u8) = c" using assms by (simp add: unat_of_nat)
  then have "in_window 8 25 ?e \<and> unat (ev_product_id ?e) = c"
    using assms by (simp add: in_window_def)
  ultimately show ?thesis by (auto simp: filter_empty_conv)
qed

section \<open>Aggregation and synchronisation\<close>

lemma ring_ok_fields: "ring_fields s' = ring_fields s \<Longrightarrow> ring_ok s' = ring_ok s"
  by (simp add: ring_fields_def ring_ok_def)

lemma buffered_fields: "ring_fields s' = ring_fields s \<Longrightarrow> buffered s' = buffered s"
  by (simp add: ring_fields_def buffered_def)

lemma aggregate_loop_fields:
  "ring_fields s' = ring_fields s
     \<Longrightarrow> aggregate_loop n index st en s' a = aggregate_loop n index st en s a"
  by (induction n arbitrary: index a) (simp_all add: ring_fields_def Let_def)

lemma aggregate_events_state:
  "aggregate_events st en s = Some (agg, s') \<Longrightarrow> s' = s"
  by (auto simp: aggregate_events_def Let_def split: option.splits)

lemma aggregate_events_fields:
  assumes "ring_fields s' = ring_fields s"
  shows "map_option fst (aggregate_events st en s') = map_option fst (aggregate_events st en s)"
  using assms aggregate_loop_fields [OF assms]
  by (simp add: aggregate_events_def Let_def ring_fields_def split: option.splits)

lemma aggregate_events_defined:
  assumes "ring_ok s"
  shows "\<exists>agg. aggregate_events st en s = Some (agg, s)"
  using aggregate_events_words [OF assms, of st en] by blast

lemma sync_to_api_frame:
  assumes "sync_to_api now success s = Some (r, s', calls)"
  shows "ring_fields s' = ring_fields s \<and> total_events s' = total_events s
         \<and> initialized s' = initialized s
         \<and> (\<not> sync_in_progress s \<longrightarrow> \<not> sync_in_progress s')"
  using assms
  by (auto simp: sync_to_api_def Let_def ring_fields_def
      split: if_splits option.splits prod.splits dest!: aggregate_events_state)

lemma nonzero_counters_le:
  assumes "ring_ok s" and "aggregate_events st en s = Some (agg, s')"
  shows "length (filter (\<lambda>j. product_counts agg ! j > 0) [1..<256]) \<le> unat (buffer_count s)"
proof -
  let ?f = "\<lambda>e. unat (ev_product_id e)"
  from aggregate_events_words [OF assms(1), of st en] assms(2)
  have cnt: "\<forall>c<256. product_counts agg ! c
                 = of_nat (length (filter (\<lambda>e. in_window st en e \<and> ?f e = c) (buffered s)))"
    by auto
  have sub: "{j. product_counts agg ! j > 0} \<inter> set [1..<256] \<subseteq> ?f ` set (buffered s)"
  proof
    fix j assume j: "j \<in> {j. product_counts agg ! j > 0} \<inter> set [1..<256]"
    then have "product_counts agg ! j \<noteq> 0" by auto
    moreover have "j < 256" using j by simp
    ultimately have "filter (\<lambda>e. in_window st en e \<and> ?f e = j) (buffered s) \<noteq> []"
      using cnt by auto
    then obtain e where "e \<in> set (buffered s)" "?f e = j"
      by (auto simp: filter_empty_conv)
    then show "j \<in> ?f ` set (buffered s)" by blast
  qed
  have "length (filter (\<lambda>j. product_counts agg ! j > 0) [1..<256])
          = card ({j. product_counts agg ! j > 0} \<inter> set [1..<256])"
    by (rule distinct_length_filter) simp
  also have "\<dots> \<le> card (?f ` set (buffered s))"
    by (rule card_mono [OF _ sub]) simp
  also have "\<dots> \<le> card (set (buffered s))" by (rule card_image_le) simp
  also have "\<dots> \<le> length (buffered s)" by (rule card_length)
  also have "\<dots> = unat (buffer_count s)" by (simp add: buffered_def)
  finally show ?thesis .
qed

lemma build_json_small:
  assumes "ring_ok s" and "ring_buffer_size (config s) \<le> 53"
    and "aggregate_events st en s = Some (agg, s')"
  shows "\<exists>payload. build_json agg = Some payload"
proof -
  have "unat (buffer_count s) \<le> unat (ring_buffer_size (config s))"
    using assms(1) by (simp add: ring_ok_def word_le_nat_alt)
  also have "\<dots> \<le> 53" using assms(2) by (simp add: word_le_nat_alt)
  finally have "length (filter (\<lambda>j. product_counts agg ! j > 0) [1..<256]) \<le> 53"
    using nonzero_counters_le [OF assms(1,3)] by simp
  then have "length (json_body agg) \<le> 1024" using json_body_upper [of agg] by simp
  from build_json_defined [OF this] show ?thesis by (simp add: jb_of_def)
qed

lemma sync_to_api_defined:
  assumes "ring_ok s" and "payload_safe (config s)"
  shows "\<exists>r s' calls. sync_to_api now success s = Some (r, s', calls)"
proof (cases "enable_external_api (config s)")
  case False
  then show ?thesis by (simp add: sync_to_api_def)
next
  case True
  let ?s1 = "s\<lparr>sync_in_progress := True\<rparr>"
  have ok: "ring_ok ?s1" using assms(1) by (simp add: ring_ok_def)
  have small: "ring_buffer_size (config ?s1) \<le> 53"
    using assms(2) True by (simp add: payload_safe_def)
  from aggregate_events_defined [OF ok, of "last_aggregation s" now]
  obtain agg where a: "aggregate_events (last_aggregation s) now ?s1 = Some (agg, ?s1)"
    by blast
  from build_json_small [OF ok small a] obtain payload where
    "build_json agg = Some payload" by blast
  then show ?thesis using a by (simp add: sync_to_api_def Let_def)
qed

lemma sync_in_progress_toggle:
  "\<not> sync_in_progress s \<Longrightarrow> s\<lparr>sync_in_progress := True\<rparr>\<lparr>sync_in_progress := False\<rparr> = s"
  by (cases s) simp

lemma sync_in_progress_drop:
  "s\<lparr>sync_in_progress := True\<rparr>\<lparr>sync_in_progress := False\<rparr> = s\<lparr>sync_in_progress := False\<rparr>"
  by simp

lemma aggregate_events_busy:
  assumes "aggregate_events st en s = Some (agg, s')"
  shows "aggregate_events st en (s\<lparr>sync_in_progress := b\<rparr>)
           = Some (agg, s\<lparr>sync_in_progress := b\<rparr>)"
proof -
  have f: "ring_fields (s\<lparr>sync_in_progress := b\<rparr>) = ring_fields s"
    by (simp add: ring_fields_def)
  show ?thesis
    using assms aggregate_loop_fields [OF f]
    by (auto simp: aggregate_events_def Let_def split: option.splits)
qed

lemma sync_to_api_forwarded:
  assumes "enable_external_api (config s)"
    and "\<not> sync_in_progress s"
    and "\<not> now - last_aggregation s < aggregation_interval (config s)"
    and "aggregate_events (last_aggregation s) now s = Some (agg, s')"
    and "agg_total_events agg \<noteq> 0"
    and "build_json agg = Some payload"
  shows "sync_to_api now success s
           = (if success
              then Some (CONSUMPTION_SUCCESS, s\<lparr>last_sync := now, last_aggregation := now\<rparr>,
                         [NetworkSend (api_endpoint (config s)) payload,
                          StorageWrite (s\<lparr>last_sync := now, last_aggregation := now\<rparr>),
                          Log 2 ''Consumption data synced successfully''])
              else Some (CONSUMPTION_ERROR_API_ERROR, s,
                         [NetworkSend (api_endpoint (config s)) payload,
                          Log 0 ''Failed to sync consumption data'']))"
proof -
  have t: "s\<lparr>sync_in_progress := True\<rparr>\<lparr>sync_in_progress := False\<rparr> = s"
    by (rule sync_in_progress_toggle [OF assms(2)])
  show ?thesis
    using assms(1,2,3,5,6) aggregate_events_busy [OF assms(4), of True] t
    by (simp add: sync_to_api_def Let_def)
qed

lemma sync_to_api_overrun:
  assumes "enable_external_api (config s)"
    and "\<not> sync_in_progress s"
    and "\<not> now - last_aggregation s < aggregation_interval (config s)"
    and "aggregate_events (last_aggregation s) now s = Some (agg, s')"
    and "agg_total_events agg \<noteq> 0"
    and "build_json agg = None"
  shows "sync_to_api now success s = None"
  using assms(1,2,3,5,6) aggregate_events_busy [OF assms(4), of True]
  by (simp add: sync_to_api_def Let_def)

lemma sync_to_api_nothing:
  assumes "\<not> sync_in_progress s"
    and "now - last_aggregation s < aggregation_interval (config s)
         \<or> (\<exists>agg s'. aggregate_events (last_aggregation s) now s = Some (agg, s')
               \<and> agg_total_events agg = 0)"
  shows "sync_to_api now success s = Some (CONSUMPTION_SUCCESS, s, [])"
proof (cases "now - last_aggregation s < aggregation_interval (config s)")
  case True
  then show ?thesis
    using assms(1) sync_in_progress_toggle [OF assms(1)] by (simp add: sync_to_api_def Let_def)
next
  case False
  then obtain agg s' where a: "aggregate_events (last_aggregation s) now s = Some (agg, s')"
    and z: "agg_total_events agg = 0" using assms(2) by blast
  show ?thesis
    using False assms(1) z aggregate_events_busy [OF a, of True]
      sync_in_progress_toggle [OF assms(1)]
    by (simp add: sync_to_api_def Let_def)
qed

lemma example_aggregate_events:
  "aggregate_events 8 25 example_state = Some (example_aggregate, example_state)"
proof -
  have n: "unat (buffer_count example_state) = Suc (Suc (Suc 0))"
    by (simp add: example_state_def)
  show ?thesis
    unfolding aggregate_events_def n
    by (simp add: example_state_def example_config_def example_aggregate_def Let_def)
qed

lemma on_dispense_accepted:
  assumes "ring_ok s" and "initialized s" and "mid = machine_id (config s)"
    and "product_id \<noteq> 0"
  shows "consumption_on_dispense env mid product_id s
           = (let s2 = (pushed \<lparr>ev_timestamp = t_event env, ev_machine_id = mid,
                                ev_product_id = product_id\<rparr> s)
                         \<lparr>total_events := total_events s + 1\<rparr>
              in if enable_external_api (config s)
                    \<and> t_check env - last_sync s \<ge> aggregation_interval (config s)
                 then case sync_to_api (t_sync env) (send_ok env) s2 of
                        None \<Rightarrow> None
                      | Some (r, s3, calls) \<Rightarrow> Some (CONSUMPTION_SUCCESS, s3, calls)
                 else Some (CONSUMPTION_SUCCESS, s2, []))"
  using assms(2,3,4) add_event_to_buffer_pushed [OF assms(1)]
  by (simp add: consumption_on_dispense_def Let_def pushed_def)

lemma ring_ok_total [simp]: "ring_ok (s\<lparr>total_events := n\<rparr>) = ring_ok s"
  by (simp add: ring_ok_def)

lemma on_dispense_gate_closed:
  assumes "ring_ok s" and "initialized s" and "mid = machine_id (config s)"
    and "product_id \<noteq> 0"
    and "\<not> (enable_external_api (config s)
            \<and> t_check env - last_sync s \<ge> aggregation_interval (config s))"
  shows "consumption_on_dispense env mid product_id s
           = Some (CONSUMPTION_SUCCESS,
                   (pushed \<lparr>ev_timestamp = t_event env, ev_machine_id = mid,
                            ev_product_id = product_id\<rparr> s)
                     \<lparr>total_events := total_events s + 1\<rparr>, [])"
  using assms(5) unfolding on_dispense_accepted [OF assms(1-4)] by (auto simp: Let_def)

lemma on_dispense_gate_open:
  assumes "ring_ok s" and "initialized s" and "mid = machine_id (config s)"
    and "product_id \<noteq> 0"
    and "enable_external_api (config s)
         \<and> t_check env - last_sync s \<ge> aggregation_interval (config s)"
  shows "consumption_on_dispense env mid product_id s
           = (case sync_to_api (t_sync env) (send_ok env)
                     ((pushed \<lparr>ev_timestamp = t_event env, ev_machine_id = mid,
                               ev_product_id = product_id\<rparr> s)
                        \<lparr>total_events := total_events s + 1\<rparr>) of
                None \<Rightarrow> None
              | Some (r, s', calls) \<Rightarrow> Some (CONSUMPTION_SUCCESS, s', calls))"
  using assms(5) unfolding on_dispense_accepted [OF assms(1-4)] by (auto simp: Let_def)

lemma pushed_frame:
  "last_sync (pushed e s) = last_sync s \<and> last_aggregation (pushed e s) = last_aggregation s
   \<and> config (pushed e s) = config s \<and> total_events (pushed e s) = total_events s
   \<and> initialized (pushed e s) = initialized s
   \<and> sync_in_progress (pushed e s) = sync_in_progress s"
  by (simp add: pushed_def Let_def)

lemma sync_after_push_defined:
  assumes "ring_ok s" and "payload_safe (config s)"
  shows "\<exists>r s' calls.
           sync_to_api now success ((pushed e s)\<lparr>total_events := n\<rparr>) = Some (r, s', calls)"
proof -
  have "ring_ok ((pushed e s)\<lparr>total_events := n\<rparr>)"
    using ring_ok_pushed [OF assms(1)] by simp
  moreover have "payload_safe (config ((pushed e s)\<lparr>total_events := n\<rparr>))"
    using assms(2) by (simp add: pushed_frame)
  ultimately show ?thesis by (rule sync_to_api_defined)
qed

lemma upt_1_256: "[1..<256] = 1 # 2 # [3..<256]"
proof -
  have "[1..<256] = 1 # [Suc 1..<256]" by (rule upt_conv_Cons) simp
  also have "[Suc 1..<256] = Suc 1 # [Suc (Suc 1)..<256]" by (rule upt_conv_Cons) simp
  finally show ?thesis by (simp add: eval_nat_numeral)
qed

lemma example_entries:
  "filter (\<lambda>j. product_counts example_aggregate ! j \<noteq> 0) [1..<256] = [1, 2]"
proof -
  have "filter (\<lambda>j. product_counts example_aggregate ! j \<noteq> 0) [3..<256] = []"
    by (auto simp: filter_empty_conv example_aggregate_def)
  then show ?thesis unfolding upt_1_256 by (simp add: example_aggregate_def)
qed

lemma example_json_body:
  \<open>json_body example_aggregate
     = ''{"machine_id":11111,"period_start":8,"period_end":25,"total_events":2,"products":{"1":1,"2":1''\<close>
  unfolding json_body_products product_entries_def example_entries
  by (simp add: example_aggregate_def comma_join_def after_comma_def decimal.simps)

lemma example_payload:
  \<open>build_json example_aggregate
     = Some (''{"machine_id":11111,"period_start":8,"period_end":25,"total_events":2,"products":{"1":1,"2":1}}'', 95)\<close>
proof -
  have "length (json_body example_aggregate @ ''}}'') \<le> 1023"
    unfolding example_json_body by simp
  from build_json_fits [OF this] show ?thesis unfolding example_json_body by simp
qed

section \<open>Sequences of dispense calls\<close>






lemma validate_config_capacity:
  "validate_config (Some c) \<Longrightarrow> 0 < ring_buffer_size c \<and> ring_buffer_size c \<le> 10000
     \<and> machine_id c \<noteq> 0"
  by (auto simp: validate_config_def word_neq_0_conv split: if_splits)

lemma malloc_elements_small: "unat n * 12 < 2 ^ 32 \<Longrightarrow> malloc_elements n = unat n"
  by (simp add: malloc_elements_def)







lemma buffer_count_pushed:
  "buffer_count (pushed e s)
     = (if buffer_count s = ring_buffer_size (config s) then buffer_count s
        else buffer_count s + 1)"
  by (simp add: pushed_def Let_def)

lemma on_dispense_buffered:
  assumes "ring_ok s" and "initialized s" and "mid = machine_id (config s)"
    and "product_id \<noteq> 0" and "payload_safe (config s)"
  shows "\<exists>s' calls. consumption_on_dispense env mid product_id s
                       = Some (CONSUMPTION_SUCCESS, s', calls)
           \<and> ring_ok s' \<and> initialized s' \<and> config s' = config s
           \<and> buffered s'
               = (if buffer_count s = ring_buffer_size (config s)
                  then tl (buffered s) else buffered s)
                 @ [\<lparr>ev_timestamp = t_event env, ev_machine_id = mid,
                     ev_product_id = product_id\<rparr>]
           \<and> buffer_count s'
               = (if buffer_count s = ring_buffer_size (config s) then buffer_count s
                  else buffer_count s + 1)
           \<and> total_events s' = total_events s + 1"
proof -
  let ?e = "\<lparr>ev_timestamp = t_event env, ev_machine_id = mid, ev_product_id = product_id\<rparr>"
  let ?s2 = "(pushed ?e s)\<lparr>total_events := total_events s + 1\<rparr>"
  have f2: "ring_fields ?s2 = ring_fields (pushed ?e s)" by (simp add: ring_fields_def)
  have ok2: "ring_ok ?s2" using ring_ok_pushed [OF assms(1)] by simp
  have p: "ring_ok s' \<and> initialized s' \<and> config s' = config s
           \<and> buffered s' = (if buffer_count s = ring_buffer_size (config s)
                             then tl (buffered s) else buffered s) @ [?e]
           \<and> buffer_count s'
               = (if buffer_count s = ring_buffer_size (config s) then buffer_count s
                  else buffer_count s + 1)
           \<and> total_events s' = total_events s + 1"
    if f: "ring_fields s' = ring_fields ?s2" and t: "total_events s' = total_events ?s2"
      and i: "initialized s' = initialized ?s2" for s'
  proof -
    have ff: "ring_fields s' = ring_fields (pushed ?e s)" using f f2 by simp
    have "ring_ok s'" using ring_ok_fields [OF f] ok2 by simp
    moreover have "buffered s' = buffered (pushed ?e s)" by (rule buffered_fields [OF ff])
    moreover have "config s' = config s" "buffer_count s' = buffer_count (pushed ?e s)"
      using ff by (simp_all add: ring_fields_def pushed_frame)
    ultimately show ?thesis
      using t i assms(2) buffered_pushed [OF assms(1), of ?e]
      by (simp add: pushed_frame buffer_count_pushed)
  qed
  show ?thesis
  proof (cases "enable_external_api (config s)
                  \<and> t_check env - last_sync s \<ge> aggregation_interval (config s)")
    case False
    from on_dispense_gate_closed [OF assms(1-4) False]
    have "consumption_on_dispense env mid product_id s = Some (CONSUMPTION_SUCCESS, ?s2, [])" .
    then show ?thesis using p [of ?s2] by blast
  next
    case True
    from sync_after_push_defined [OF assms(1,5)] obtain r s' calls where
      s: "sync_to_api (t_sync env) (send_ok env) ?s2 = Some (r, s', calls)"
      by blast
    then have d: "consumption_on_dispense env mid product_id s
                    = Some (CONSUMPTION_SUCCESS, s', calls)"
      using on_dispense_gate_open [OF assms(1-4) True] by simp
    from sync_to_api_frame [OF s] p [of s'] d show ?thesis by blast
  qed
qed

lemma consumption_init_fresh:
  assumes "\<not> initialized s0" and "validate_config (Some c)"
  shows "\<exists>s1. consumption_init (Some c) None now (Some block) s0
                 = (CONSUMPTION_SUCCESS, s1, [Log 2 ''Consumption module initialized''])
           \<and> ring_ok s1 \<and> initialized s1 \<and> config s1 = c \<and> buffered s1 = []
           \<and> buffer_count s1 = 0 \<and> total_events s1 = 0"
proof -
  let ?s1 = "zero_state\<lparr>config := c, last_aggregation := now,
               event_buffer := map block [0..<malloc_elements (ring_buffer_size c)],
               initialized := True\<rparr>"
  have i: "consumption_init (Some c) None now (Some block) s0
             = (CONSUMPTION_SUCCESS, ?s1, [Log 2 ''Consumption module initialized''])"
    using assms by (simp add: consumption_init_def Let_def)
  have "unat (ring_buffer_size c) \<le> 10000"
    using validate_config_capacity [OF assms(2)] by (simp add: word_le_nat_alt)
  then have "malloc_elements (ring_buffer_size c) = unat (ring_buffer_size c)"
    by (simp add: malloc_elements_small)
  then have "ring_ok ?s1"
    using validate_config_capacity [OF assms(2)] by (simp add: ring_ok_def zero_state_def)
  moreover have "buffered ?s1 = []" by (simp add: buffered_def zero_state_def)
  ultimately show ?thesis using i by (simp add: zero_state_def)
qed

lemma length_buffered: "length (buffered s) = unat (buffer_count s)"
  by (simp add: buffered_def)

lemma keep_last_step:
  assumes "length b \<le> n" and "0 < n"
  shows "keep_last n ((if length b = n then tl b else b) @ e # rest)
           = keep_last n (b @ e # rest)"
proof (cases "length b = n")
  case True
  then obtain x b' where b: "b = x # b'" using assms(2) by (cases b) auto
  then show ?thesis using True by (simp add: keep_last_def Suc_diff_le)
next
  case False
  then show ?thesis by simp
qed

lemma dispense_run_accepted:
  assumes "ring_ok s" and "initialized s"
    and "\<forall>c \<in> set cs. fst (snd c) = machine_id (config s) \<and> snd (snd c) \<noteq> 0"
    and "payload_safe (config s)"
  shows "\<exists>tr. dispense_run cs s = Some tr
           \<and> map fst tr = replicate (length cs) CONSUMPTION_SUCCESS
           \<and> ring_ok (final_state s tr)
           \<and> config (final_state s tr) = config s
           \<and> buffered (final_state s tr)
               = keep_last (unat (ring_buffer_size (config s))) (buffered s @ map event_of cs)
           \<and> total_events (final_state s tr) = total_events s + of_nat (length cs)"
  using assms
proof (induction cs arbitrary: s)
  case Nil
  have "length (buffered s) \<le> unat (ring_buffer_size (config s))"
    using Nil.prems(1) by (simp add: length_buffered ring_ok_def word_le_nat_alt)
  then show ?case using Nil.prems(1) by (simp add: final_state_def keep_last_def)
next
  case (Cons c cs)
  obtain env mid product_id where c: "c = (env, mid, product_id)" by (cases c) auto
  let ?C = "unat (ring_buffer_size (config s))"
  have m: "mid = machine_id (config s)" "product_id \<noteq> 0" using Cons.prems(3) c by simp_all
  from on_dispense_buffered [OF Cons.prems(1,2) m Cons.prems(4), of env]
  obtain s' calls where
    d: "consumption_on_dispense env mid product_id s = Some (CONSUMPTION_SUCCESS, s', calls)"
    and ok: "ring_ok s'" and ini: "initialized s'" and cf: "config s' = config s"
    and buf: "buffered s'
               = (if buffer_count s = ring_buffer_size (config s)
                  then tl (buffered s) else buffered s) @ [event_of c]"
    and tot: "total_events s' = total_events s + 1"
    unfolding c event_of_def by auto
  have rest: "\<forall>c \<in> set cs. fst (snd c) = machine_id (config s') \<and> snd (snd c) \<noteq> 0"
    using Cons.prems(3) cf by simp
  have safe: "payload_safe (config s')" using Cons.prems(4) cf by simp
  from Cons.IH [OF ok ini rest safe] obtain tr where
    run: "dispense_run cs s' = Some tr"
    and res: "map fst tr = replicate (length cs) CONSUMPTION_SUCCESS"
    and okf: "ring_ok (final_state s' tr)"
    and cff: "config (final_state s' tr) = config s'"
    and bf: "buffered (final_state s' tr) = keep_last ?C (buffered s' @ map event_of cs)"
    and tf: "total_events (final_state s' tr) = total_events s' + of_nat (length cs)"
    using cf by auto
  have r1: "dispense_run (c # cs) s = Some ((CONSUMPTION_SUCCESS, s') # tr)"
    using c d run by simp
  have fin: "final_state s ((CONSUMPTION_SUCCESS, s') # tr) = final_state s' tr"
    by (simp add: final_state_def)
  have le: "length (buffered s) \<le> ?C" "0 < ?C"
    using Cons.prems(1)
    by (auto simp: length_buffered ring_ok_def word_le_nat_alt unat_gt_0)
  have full: "(buffer_count s = ring_buffer_size (config s)) = (length (buffered s) = ?C)"
    by (simp add: length_buffered word_unat_eq_iff)
  have "buffered (final_state s' tr)
          = keep_last ?C (buffered s @ map event_of (c # cs))"
    unfolding bf buf full using keep_last_step [OF le] by simp
  then show ?case
    using r1 res okf cff cf tf tot unfolding fin [symmetric] by simp
qed

section \<open>Configuration updates and the initialized flag\<close>

lemma update_config_capacity:
  "ring_buffer_size (config (fst (snd (consumption_update_config cfg s))))
     = ring_buffer_size (config s)"
  by (simp add: consumption_update_config_def Let_def split: option.splits)

lemma update_run_capacity:
  "ring_buffer_size (config (update_run cfgs s)) = ring_buffer_size (config s)"
  by (induction cfgs arbitrary: s) (simp_all add: update_config_capacity)

lemma uninitialized_calls:
  assumes "\<not> initialized s"
  shows "consumption_on_dispense env mid product_id s
           = Some (CONSUMPTION_ERROR_INVALID_CONFIG, s, [])"
    and "consumption_get_stats a b c s = (CONSUMPTION_ERROR_INVALID_CONFIG, s, (None, None, None))"
    and "consumption_force_sync now success s = Some (CONSUMPTION_ERROR_INVALID_CONFIG, s, [])"
  using assms
  by (simp_all add: consumption_on_dispense_def consumption_get_stats_def
      consumption_force_sync_def)

lemma init_when_initialized:
  "initialized s \<Longrightarrow> consumption_init cfg loaded now mem s = (CONSUMPTION_SUCCESS, s, [])"
  by (simp add: consumption_init_def)

lemma init_success_initialized:
  "consumption_init cfg loaded now mem s = (CONSUMPTION_SUCCESS, s1, calls) \<Longrightarrow> initialized s1"
  by (auto simp: consumption_init_def Let_def split: if_splits option.splits)

lemma init_twice:
  assumes "consumption_init cfg loaded now mem s = (CONSUMPTION_SUCCESS, s1, calls)"
  shows "consumption_init cfg' loaded' now' mem' s1 = (CONSUMPTION_SUCCESS, s1, [])"
  using init_success_initialized [OF assms] by (rule init_when_initialized)

lemma init_memory_error_example:
  "consumption_init (Some example_config) (Some example_state) 9 None zero_state
     = (CONSUMPTION_ERROR_MEMORY_ERROR, example_state\<lparr>event_buffer := []\<rparr>, [])"
  by (simp add: consumption_init_def zero_state_def validate_config_def example_config_def
      Let_def)

lemma deinit_stores_flag:
  assumes "initialized s"
    and "consumption_deinit now success s = Some (r, s', calls)"
  shows "\<exists>blob. StorageWrite blob \<in> set calls \<and> initialized blob \<and> \<not> initialized s'"
proof (cases "enable_external_api (config s)")
  case False
  then show ?thesis using assms by (auto simp: consumption_deinit_def)
next
  case True
  then obtain r1 s1 calls1 where s: "sync_to_api now success s = Some (r1, s1, calls1)"
    and c: "calls = calls1 @ [StorageWrite s1, Log 2 ''Consumption module deinitialized'']"
    and s': "s' = s1\<lparr>event_buffer := [], initialized := False\<rparr>"
    using assms by (auto simp: consumption_deinit_def split: option.splits)
  from sync_to_api_frame [OF s] assms(1) have "initialized s1" by simp
  then show ?thesis using c s' by auto
qed

lemma init_memory_error_restored:
  assumes "\<not> initialized s0" and "cfg = None \<or> validate_config cfg"
  shows "consumption_init cfg (Some blob) now None s0
           = (CONSUMPTION_ERROR_MEMORY_ERROR, blob\<lparr>event_buffer := []\<rparr>, [])"
  using assms by (auto simp: consumption_init_def Let_def)

section \<open>The claims\<close>




text \<open>
  Claim C2. Start an instance that is not initialized, with a valid configuration of
  capacity 3 and no stored state, and call \<open>consumption_on_dispense\<close> six times with the
  machine id of the configuration and the product ids 1, 2, 3, 4, 5, 6, whatever the
  platform answers during the calls. The init and all six calls return success; the
  buffered events, oldest first, are then exactly those of the calls with the product ids
  4, 5 and 6; the buffered count is 3 and the lifetime total is 6.
\<close>

theorem ring_buffer_keeps_last_three:
  assumes "\<not> initialized s0" and "validate_config (Some c)" and "ring_buffer_size c = 3"
  shows "\<exists>s1 tr.
           consumption_init (Some c) None now (Some block) s0
             = (CONSUMPTION_SUCCESS, s1, [Log 2 ''Consumption module initialized''])
           \<and> dispense_run [(e1, machine_id c, 1), (e2, machine_id c, 2), (e3, machine_id c, 3),
                            (e4, machine_id c, 4), (e5, machine_id c, 5), (e6, machine_id c, 6)] s1
               = Some tr
           \<and> map fst tr = replicate 6 CONSUMPTION_SUCCESS
           \<and> buffered (final_state s1 tr)
               = [\<lparr>ev_timestamp = t_event e4, ev_machine_id = machine_id c, ev_product_id = 4\<rparr>,
                  \<lparr>ev_timestamp = t_event e5, ev_machine_id = machine_id c, ev_product_id = 5\<rparr>,
                  \<lparr>ev_timestamp = t_event e6, ev_machine_id = machine_id c, ev_product_id = 6\<rparr>]
           \<and> buffer_count (final_state s1 tr) = 3
           \<and> total_events (final_state s1 tr) = 6"
proof -
  let ?cs = "[(e1, machine_id c, 1::u8), (e2, machine_id c, 2), (e3, machine_id c, 3),
              (e4, machine_id c, 4), (e5, machine_id c, 5), (e6, machine_id c, 6)]"
  from consumption_init_fresh [OF assms(1,2), of now block] obtain s1 where
    i: "consumption_init (Some c) None now (Some block) s0
          = (CONSUMPTION_SUCCESS, s1, [Log 2 ''Consumption module initialized''])"
    and ok: "ring_ok s1" and ini: "initialized s1" and cf: "config s1 = c"
    and b0: "buffered s1 = []" and t0: "total_events s1 = 0"
    by blast
  have all: "\<forall>x \<in> set ?cs. fst (snd x) = machine_id (config s1) \<and> snd (snd x) \<noteq> 0"
    using cf by simp
  have safe: "payload_safe (config s1)" using cf assms(3) by (simp add: payload_safe_def)
  from dispense_run_accepted [OF ok ini all safe] obtain tr where
    run: "dispense_run ?cs s1 = Some tr"
    and res: "map fst tr = replicate (length ?cs) CONSUMPTION_SUCCESS"
    and okf: "ring_ok (final_state s1 tr)"
    and bf: "buffered (final_state s1 tr)
               = keep_last (unat (ring_buffer_size (config s1))) (buffered s1 @ map event_of ?cs)"
    and tf: "total_events (final_state s1 tr) = total_events s1 + of_nat (length ?cs)"
    by blast
  have b: "buffered (final_state s1 tr)
             = [\<lparr>ev_timestamp = t_event e4, ev_machine_id = machine_id c, ev_product_id = 4\<rparr>,
                \<lparr>ev_timestamp = t_event e5, ev_machine_id = machine_id c, ev_product_id = 5\<rparr>,
                \<lparr>ev_timestamp = t_event e6, ev_machine_id = machine_id c, ev_product_id = 6\<rparr>]"
    unfolding bf b0 cf assms(3) by (simp add: keep_last_def event_of_def)
  have "unat (buffer_count (final_state s1 tr)) = 3"
    using length_buffered [of "final_state s1 tr"] unfolding b by simp
  then have n: "buffer_count (final_state s1 tr) = 3"
    by (simp add: word_unat_eq_iff)
  have t: "total_events (final_state s1 tr) = 6" using tf t0 by simp
  have l: "length ?cs = 6" by simp
  have r: "map fst tr = replicate 6 CONSUMPTION_SUCCESS" using res by (simp only: l)
  show ?thesis using i run r b n t by blast
qed

theorem ring_buffer_keeps_last_three_witness:
  "\<not> initialized zero_state \<and> validate_config (Some example_config)
   \<and> ring_buffer_size example_config = 3
   \<and> (\<exists>s1 tr.
         consumption_init (Some example_config) None 9 (Some example_block) zero_state
           = (CONSUMPTION_SUCCESS, s1, [Log 2 ''Consumption module initialized''])
         \<and> dispense_run [(example_env_early, 11111, 1), (example_env_early, 11111, 2),
                          (example_env_early, 11111, 3), (example_env, 11111, 4),
                          (example_env, 11111, 5), (example_env, 11111, 6)] s1
             = Some tr
         \<and> map fst tr = replicate 6 CONSUMPTION_SUCCESS
         \<and> buffered (final_state s1 tr)
             = [\<lparr>ev_timestamp = 40, ev_machine_id = 11111, ev_product_id = 4\<rparr>,
                \<lparr>ev_timestamp = 40, ev_machine_id = 11111, ev_product_id = 5\<rparr>,
                \<lparr>ev_timestamp = 40, ev_machine_id = 11111, ev_product_id = 6\<rparr>]
         \<and> buffer_count (final_state s1 tr) = 3
         \<and> total_events (final_state s1 tr) = 6)"
proof -
  have h1: "\<not> initialized zero_state" by (simp add: zero_state_def)
  have h2: "validate_config (Some example_config)"
    by (simp add: validate_config_def example_config_def)
  have h3: "ring_buffer_size example_config = 3" by (simp add: example_config_def)
  have m: "machine_id example_config = 11111" by (simp add: example_config_def)
  have t: "t_event example_env = 40" by (simp add: example_env_def)
  from ring_buffer_keeps_last_three [OF h1 h2 h3, of 9 example_block example_env_early
      example_env_early example_env_early example_env example_env example_env]
  show ?thesis using h1 h2 h3 unfolding m t by simp
qed

text \<open>
  Claim C3. In a state with a consistent ring buffer, \<open>aggregate_events\<close> returns;
  its total is the number of buffered events whose timestamp lies in
  \<open>[start_time, end_time]\<close>, both ends included, whatever their product id; for each
  product id from 1 to 255 the counter is the number of those events with that id, so an
  event with the id 0 is counted in none of them; and the state, with the buffer, its
  head, tail and count, is left as it was.
\<close>

theorem aggregate_events_counts:
  assumes "ring_ok s"
  shows "\<exists>agg. aggregate_events st en s = Some (agg, s)
           \<and> unat (agg_total_events agg) = length (filter (in_window st en) (buffered s))
           \<and> (\<forall>c. 1 \<le> c \<and> c \<le> 255 \<longrightarrow>
                 unat (product_counts agg ! c)
                   = length (filter (\<lambda>e. in_window st en e \<and> unat (ev_product_id e) = c)
                       (buffered s)))
           \<and> length (product_counts agg) = 256
           \<and> agg_machine_id agg = machine_id (config s)
           \<and> period_start agg = st \<and> period_end agg = en"
proof -
  from aggregate_events_words [OF assms, of st en] obtain agg where
    run: "aggregate_events st en s = Some (agg, s)"
    and tot: "agg_total_events agg = of_nat (length (filter (in_window st en) (buffered s)))"
    and cnt: "\<forall>c<256. product_counts agg ! c
                 = of_nat (length (filter (\<lambda>e. in_window st en e \<and> unat (ev_product_id e) = c)
                     (buffered s)))"
    and rest: "length (product_counts agg) = 256" "agg_machine_id agg = machine_id (config s)"
      "period_start agg = st" "period_end agg = en"
    by blast
  have "unat (agg_total_events agg) = length (filter (in_window st en) (buffered s))"
    unfolding tot by (rule unat_of_nat_u32 [OF filter_buffered_bound])
  moreover have "\<forall>c. 1 \<le> c \<and> c \<le> 255 \<longrightarrow>
                 unat (product_counts agg ! c)
                   = length (filter (\<lambda>e. in_window st en e \<and> unat (ev_product_id e) = c)
                       (buffered s))"
    using cnt by (simp add: unat_of_nat_u32 [OF filter_buffered_bound])
  ultimately show ?thesis using run rest by blast
qed

theorem aggregate_events_counts_witness:
  "ring_ok example_state
   \<and> (\<exists>agg. aggregate_events 10 25 example_state = Some (agg, example_state)
         \<and> unat (agg_total_events agg) = 2
         \<and> unat (product_counts agg ! 1) = 1
         \<and> unat (product_counts agg ! 2) = 1)"
proof -
  from aggregate_events_counts [OF example_state_ring_ok, of 10 25]
  obtain agg where
    run: "aggregate_events 10 25 example_state = Some (agg, example_state)"
    and tot: "unat (agg_total_events agg)
               = length (filter (in_window 10 25) (buffered example_state))"
    and cnt: "\<forall>c. 1 \<le> c \<and> c \<le> 255 \<longrightarrow>
                 unat (product_counts agg ! c)
                   = length (filter (\<lambda>e. in_window 10 25 e \<and> unat (ev_product_id e) = c)
                       (buffered example_state))"
    by blast
  have "unat (agg_total_events agg) = 2"
    using tot by (simp add: buffered_example_state in_window_def)
  moreover have "unat (product_counts agg ! 1) = 1"
    using cnt [rule_format, of 1] by (simp add: buffered_example_state in_window_def)
  moreover have "unat (product_counts agg ! 2) = 1"
    using cnt [rule_format, of 2] by (simp add: buffered_example_state in_window_def)
  ultimately show ?thesis using run example_state_ring_ok by blast
qed

text \<open>
  Claim C4. Take a call of \<open>sync_to_api\<close> with the external API enabled and no sync in
  progress, at a time \<open>now\<close> at least one aggregation interval after
  \<open>last_aggregation\<close>, whose aggregate over \<open>[last_aggregation, now]\<close> is not empty and
  whose payload is built within \<open>json_buffer\<close>, so that the call reaches the send and
  forwards the aggregate. If the send succeeds, \<open>last_sync\<close> and \<open>last_aggregation\<close>
  are both \<open>now\<close>, that state is written to the storage, and the call returns success.
  If the send fails, the state is the one before the call, so both timestamps are
  unchanged, nothing is written to the storage, and the call returns
  \<open>CONSUMPTION_ERROR_API_ERROR\<close>. Where the formatting runs past the end of
  \<open>json_buffer\<close> nothing is forwarded and the call has no defined behaviour (claim C9).
\<close>

theorem sync_to_api_window_advance:
  assumes "enable_external_api (config s)"
    and "\<not> sync_in_progress s"
    and "\<not> now - last_aggregation s < aggregation_interval (config s)"
    and "aggregate_events (last_aggregation s) now s = Some (agg, s')"
    and "agg_total_events agg \<noteq> 0"
    and "build_json agg = Some payload"
  shows "sync_to_api now True s
           = Some (CONSUMPTION_SUCCESS, s\<lparr>last_sync := now, last_aggregation := now\<rparr>,
                   [NetworkSend (api_endpoint (config s)) payload,
                    StorageWrite (s\<lparr>last_sync := now, last_aggregation := now\<rparr>),
                    Log 2 ''Consumption data synced successfully''])
         \<and> sync_to_api now False s
           = Some (CONSUMPTION_ERROR_API_ERROR, s,
                   [NetworkSend (api_endpoint (config s)) payload,
                    Log 0 ''Failed to sync consumption data''])"
  using sync_to_api_forwarded [OF assms, of True] sync_to_api_forwarded [OF assms, of False]
  by simp

theorem sync_to_api_window_advance_witness:
  \<open>enable_external_api (config example_state)
   \<and> \<not> sync_in_progress example_state
   \<and> \<not> 25 - last_aggregation example_state < aggregation_interval (config example_state)
   \<and> aggregate_events (last_aggregation example_state) 25 example_state
       = Some (example_aggregate, example_state)
   \<and> agg_total_events example_aggregate \<noteq> 0
   \<and> sync_to_api 25 True example_state
       = Some (CONSUMPTION_SUCCESS, example_state\<lparr>last_sync := 25, last_aggregation := 25\<rparr>,
               [NetworkSend ''http://sink''
                  (''{"machine_id":11111,"period_start":8,"period_end":25,"total_events":2,"products":{"1":1,"2":1}}'',
                   95),
                StorageWrite (example_state\<lparr>last_sync := 25, last_aggregation := 25\<rparr>),
                Log 2 ''Consumption data synced successfully''])
   \<and> sync_to_api 25 False example_state
       = Some (CONSUMPTION_ERROR_API_ERROR, example_state,
               [NetworkSend ''http://sink''
                  (''{"machine_id":11111,"period_start":8,"period_end":25,"total_events":2,"products":{"1":1,"2":1}}'',
                   95),
                Log 0 ''Failed to sync consumption data''])\<close>
proof -
  have h1: "enable_external_api (config example_state)"
    by (simp add: example_state_def example_config_def)
  have h2: "\<not> sync_in_progress example_state" by (simp add: example_state_def)
  have h3: "\<not> 25 - last_aggregation example_state < aggregation_interval (config example_state)"
    by (simp add: example_state_def example_config_def)
  have h4: "aggregate_events (last_aggregation example_state) 25 example_state
              = Some (example_aggregate, example_state)"
    using example_aggregate_events by (simp add: example_state_def)
  have h5: "agg_total_events example_aggregate \<noteq> 0" by (simp add: example_aggregate_def)
  have e: "api_endpoint (config example_state) = ''http://sink''"
    by (simp add: example_state_def example_config_def)
  show ?thesis
    using sync_to_api_window_advance [OF h1 h2 h3 h4 h5 example_payload] h1 h2 h3 h4 h5
    unfolding e by simp
qed

text \<open>
  Claim C5. On an initialized instance with no sync in progress, a sync trigger
  (\<open>consumption_force_sync\<close>, and \<open>sync_to_api\<close> itself, which every trigger calls) at a
  time \<open>now\<close> less than one aggregation interval after \<open>last_aggregation\<close> (the
  difference is taken in 32 bits), or whose aggregate over \<open>[last_aggregation, now]\<close> has
  the total 0, returns success, calls neither the network nor the storage, and leaves the
  state as it was: \<open>last_aggregation\<close> and \<open>last_sync\<close> do not move and
  \<open>sync_in_progress\<close> is false again.
\<close>

theorem sync_trigger_nothing_to_do:
  assumes "initialized s"
    and "\<not> sync_in_progress s"
    and "now - last_aggregation s < aggregation_interval (config s)
         \<or> (\<exists>agg s'. aggregate_events (last_aggregation s) now s = Some (agg, s')
               \<and> agg_total_events agg = 0)"
  shows "consumption_force_sync now success s = Some (CONSUMPTION_SUCCESS, s, [])
         \<and> sync_to_api now success s = Some (CONSUMPTION_SUCCESS, s, [])"
  using assms(1) sync_to_api_nothing [OF assms(2,3)]
  by (simp add: consumption_force_sync_def)

theorem sync_trigger_nothing_to_do_witness:
  "initialized example_state \<and> \<not> sync_in_progress example_state
   \<and> 10 - last_aggregation example_state < aggregation_interval (config example_state)
   \<and> consumption_force_sync 10 True example_state = Some (CONSUMPTION_SUCCESS, example_state, [])
   \<and> sync_to_api 10 True example_state = Some (CONSUMPTION_SUCCESS, example_state, [])
   \<and> \<not> 5 - last_aggregation example_state < aggregation_interval (config example_state)
   \<and> (\<exists>agg s'. aggregate_events (last_aggregation example_state) 5 example_state
                    = Some (agg, s') \<and> agg_total_events agg = 0)
   \<and> consumption_force_sync 5 True example_state = Some (CONSUMPTION_SUCCESS, example_state, [])"
proof -
  have h1: "initialized example_state" by (simp add: example_state_def)
  have h2: "\<not> sync_in_progress example_state" by (simp add: example_state_def)
  have h3: "10 - last_aggregation example_state < aggregation_interval (config example_state)"
    by (simp add: example_state_def example_config_def)
  have h4: "\<not> 5 - last_aggregation example_state < aggregation_interval (config example_state)"
    by (simp add: example_state_def example_config_def)
  from aggregate_events_words [OF example_state_ring_ok, of 8 5] obtain agg where
    a: "aggregate_events 8 5 example_state = Some (agg, example_state)"
    and t: "agg_total_events agg
              = of_nat (length (filter (in_window 8 5) (buffered example_state)))"
    by blast
  have z: "agg_total_events agg = 0"
    unfolding t by (simp add: buffered_example_state in_window_def)
  have l: "last_aggregation example_state = 8" by (simp add: example_state_def)
  have h5: "\<exists>agg s'. aggregate_events (last_aggregation example_state) 5 example_state
                    = Some (agg, s') \<and> agg_total_events agg = 0"
    unfolding l using a z by blast
  show ?thesis
    using sync_trigger_nothing_to_do [OF h1 h2 disjI1 [OF h3], of True]
      sync_trigger_nothing_to_do [OF h1 h2 disjI2 [OF h5], of True] h1 h2 h3 h4 h5
    by simp
qed

text \<open>
  Claim C6 as stated fails twice on \<open>example_state\<close>, whose capacity is 3 and whose
  machine id is 11111: a new configuration with the capacity 0 is answered with
  \<open>CONSUMPTION_ERROR_INVALID_CONFIG\<close>, not with \<open>CONSUMPTION_ERROR_INVALID_PARAMETER\<close>,
  and a new configuration that differs only in the machine id 22222 is accepted and
  becomes the active one.
\<close>

theorem update_config_counterexample:
  "ring_buffer_size (config example_state) = 3
   \<and> consumption_update_config (Some (example_config\<lparr>ring_buffer_size := 0\<rparr>)) example_state
       = (CONSUMPTION_ERROR_INVALID_CONFIG, example_state, [])
   \<and> machine_id (config example_state) = 11111
   \<and> fst (consumption_update_config (Some (example_config\<lparr>machine_id := 22222\<rparr>))
             example_state) = CONSUMPTION_SUCCESS
   \<and> machine_id (config (update_run [Some (example_config\<lparr>machine_id := 22222\<rparr>)]
                            example_state)) = 22222"
  by (simp add: consumption_update_config_def validate_config_def example_state_def
      example_config_def Let_def)

text \<open>
  Claim C6, as amended. \<open>consumption_update_config\<close> answers a null or invalid new
  configuration (machine id 0, capacity 0 or above 10000) with
  \<open>CONSUMPTION_ERROR_INVALID_CONFIG\<close>, and a valid one whose capacity differs from the
  active capacity with \<open>CONSUMPTION_ERROR_INVALID_PARAMETER\<close>; in both cases the state is
  as before and nothing is written. A valid configuration with the active capacity is
  accepted: it replaces the active configuration as a whole, machine id included, and the
  new state is written to the storage. After any sequence of calls the capacity of the
  active configuration is the one before the sequence.
\<close>

theorem update_config_capacity_fixed:
  "consumption_update_config None s = (CONSUMPTION_ERROR_INVALID_CONFIG, s, [])
   \<and> (\<not> validate_config (Some c) \<longrightarrow>
        consumption_update_config (Some c) s = (CONSUMPTION_ERROR_INVALID_CONFIG, s, []))
   \<and> (validate_config (Some c) \<and> ring_buffer_size c \<noteq> ring_buffer_size (config s) \<longrightarrow>
        consumption_update_config (Some c) s = (CONSUMPTION_ERROR_INVALID_PARAMETER, s, []))
   \<and> (validate_config (Some c) \<and> ring_buffer_size c = ring_buffer_size (config s) \<longrightarrow>
        consumption_update_config (Some c) s
          = (CONSUMPTION_SUCCESS, s\<lparr>config := c\<rparr>, [StorageWrite (s\<lparr>config := c\<rparr>)]))
   \<and> ring_buffer_size (config (update_run cfgs s)) = ring_buffer_size (config s)"
  using update_run_capacity [of cfgs s]
  by (simp add: consumption_update_config_def Let_def)

theorem update_config_capacity_fixed_witness:
  "\<not> validate_config (Some (example_config\<lparr>ring_buffer_size := 0\<rparr>))
   \<and> consumption_update_config (Some (example_config\<lparr>ring_buffer_size := 0\<rparr>)) example_state
       = (CONSUMPTION_ERROR_INVALID_CONFIG, example_state, [])
   \<and> validate_config (Some (example_config\<lparr>ring_buffer_size := 200\<rparr>))
   \<and> consumption_update_config (Some (example_config\<lparr>ring_buffer_size := 200\<rparr>)) example_state
       = (CONSUMPTION_ERROR_INVALID_PARAMETER, example_state, [])
   \<and> validate_config (Some (example_config\<lparr>aggregation_interval := 1800\<rparr>))
   \<and> consumption_update_config (Some (example_config\<lparr>aggregation_interval := 1800\<rparr>))
        example_state
       = (CONSUMPTION_SUCCESS,
          example_state\<lparr>config := example_config\<lparr>aggregation_interval := 1800\<rparr>\<rparr>,
          [StorageWrite
             (example_state\<lparr>config := example_config\<lparr>aggregation_interval := 1800\<rparr>\<rparr>)])
   \<and> ring_buffer_size (config (update_run
          [Some (example_config\<lparr>ring_buffer_size := 200\<rparr>),
           Some (example_config\<lparr>aggregation_interval := 1800\<rparr>)] example_state)) = 3"
proof -
  have v0: "\<not> validate_config (Some (example_config\<lparr>ring_buffer_size := 0\<rparr>))"
    by (simp add: validate_config_def example_config_def)
  have v1: "validate_config (Some (example_config\<lparr>ring_buffer_size := 200\<rparr>))"
    by (simp add: validate_config_def example_config_def)
  have d1: "ring_buffer_size (example_config\<lparr>ring_buffer_size := 200\<rparr>)
              \<noteq> ring_buffer_size (config example_state)"
    by (simp add: example_state_def example_config_def)
  have v2: "validate_config (Some (example_config\<lparr>aggregation_interval := 1800\<rparr>))"
    by (simp add: validate_config_def example_config_def)
  have d2: "ring_buffer_size (example_config\<lparr>aggregation_interval := 1800\<rparr>)
              = ring_buffer_size (config example_state)"
    by (simp add: example_state_def example_config_def)
  have c3: "ring_buffer_size (config example_state) = 3"
    by (simp add: example_state_def example_config_def)
  note t = update_config_capacity_fixed [where s = example_state]
  have "consumption_update_config (Some (example_config\<lparr>ring_buffer_size := 0\<rparr>)) example_state
          = (CONSUMPTION_ERROR_INVALID_CONFIG, example_state, [])"
    using t [where c = "example_config\<lparr>ring_buffer_size := 0\<rparr>"] v0 by blast
  moreover have "consumption_update_config (Some (example_config\<lparr>ring_buffer_size := 200\<rparr>))
                   example_state
                 = (CONSUMPTION_ERROR_INVALID_PARAMETER, example_state, [])"
    using t [where c = "example_config\<lparr>ring_buffer_size := 200\<rparr>"] v1 d1 by blast
  moreover have "consumption_update_config (Some (example_config\<lparr>aggregation_interval := 1800\<rparr>))
        example_state
       = (CONSUMPTION_SUCCESS,
          example_state\<lparr>config := example_config\<lparr>aggregation_interval := 1800\<rparr>\<rparr>,
          [StorageWrite
             (example_state\<lparr>config := example_config\<lparr>aggregation_interval := 1800\<rparr>\<rparr>)])"
    using t [where c = "example_config\<lparr>aggregation_interval := 1800\<rparr>"] v2 d2 by blast
  moreover have "ring_buffer_size (config (update_run
          [Some (example_config\<lparr>ring_buffer_size := 200\<rparr>),
           Some (example_config\<lparr>aggregation_interval := 1800\<rparr>)] example_state)) = 3"
    using t [where cfgs = "[Some (example_config\<lparr>ring_buffer_size := 200\<rparr>),
           Some (example_config\<lparr>aggregation_interval := 1800\<rparr>)]"] c3 by simp
  ultimately show ?thesis using v0 v1 v2 by blast
qed

text \<open>
  Claim C7. On an initialized instance, \<open>consumption_on_dispense\<close> with a machine id
  other than the one in the active configuration, or with the product id 0, returns
  \<open>CONSUMPTION_ERROR_INVALID_PARAMETER\<close>, makes no platform call, and leaves the whole
  state as it was: the buffer, its count, head and tail, and the lifetime total.
\<close>

theorem on_dispense_invalid_parameter:
  assumes "initialized s"
    and "mid \<noteq> machine_id (config s) \<or> product_id = 0"
  shows "consumption_on_dispense env mid product_id s
           = Some (CONSUMPTION_ERROR_INVALID_PARAMETER, s, [])"
  using assms by (auto simp: consumption_on_dispense_def)

theorem on_dispense_invalid_parameter_witness:
  "initialized example_state
   \<and> 99999 \<noteq> machine_id (config example_state)
   \<and> consumption_on_dispense example_env 99999 1 example_state
       = Some (CONSUMPTION_ERROR_INVALID_PARAMETER, example_state, [])
   \<and> consumption_on_dispense example_env 11111 0 example_state
       = Some (CONSUMPTION_ERROR_INVALID_PARAMETER, example_state, [])"
proof -
  have h1: "initialized example_state" by (simp add: example_state_def)
  have h2: "99999 \<noteq> machine_id (config example_state)"
    by (simp add: example_state_def example_config_def)
  show ?thesis
    using on_dispense_invalid_parameter [OF h1 disjI1 [OF h2], where env = example_env
        and product_id = 1]
      on_dispense_invalid_parameter [OF h1 disjI2 [OF refl], where env = example_env
        and mid = 11111] h1 h2
    by simp
qed

text \<open>
  Claim C8. Where the \<open>initialized\<close> flag is clear, \<open>consumption_on_dispense\<close>,
  \<open>consumption_get_stats\<close> and \<open>consumption_force_sync\<close> return
  \<open>CONSUMPTION_ERROR_INVALID_CONFIG\<close> and leave the state (\<open>uninitialized_calls\<close>), and
  an init after a successful init returns success and changes nothing (\<open>init_twice\<close>).
  But the flag can be set before any init has succeeded: \<open>load_state\<close> overwrites the
  whole of \<open>g_state\<close>, flag included, and the states that \<open>sync_to_api\<close> and
  \<open>consumption_deinit\<close> store have the flag set (\<open>deinit_stores_flag\<close>). When the
  allocation then fails, \<open>consumption_init\<close> returns
  \<open>CONSUMPTION_ERROR_MEMORY_ERROR\<close> and leaves the restored flag set with a null
  \<open>event_buffer\<close>. From the static initial state, with the stored \<open>example_state\<close>:
  the init fails, \<open>consumption_get_stats\<close> nevertheless returns success,
  \<open>consumption_on_dispense\<close> stores through the null pointer, and a second
  \<open>consumption_init\<close> returns success without allocating anything.
\<close>

theorem init_memory_error_keeps_flag:
  "consumption_init (Some example_config) (Some example_state) 9 None zero_state
     = (CONSUMPTION_ERROR_MEMORY_ERROR, example_state\<lparr>event_buffer := []\<rparr>, [])
   \<and> consumption_get_stats True True True (example_state\<lparr>event_buffer := []\<rparr>)
       = (CONSUMPTION_SUCCESS, example_state\<lparr>event_buffer := []\<rparr>, (Some 3, Some 3, Some 8))
   \<and> consumption_on_dispense example_env 11111 1 (example_state\<lparr>event_buffer := []\<rparr>) = None
   \<and> consumption_init (Some example_config) None 9 None (example_state\<lparr>event_buffer := []\<rparr>)
       = (CONSUMPTION_SUCCESS, example_state\<lparr>event_buffer := []\<rparr>, [])"
proof -
  have i: "initialized (example_state\<lparr>event_buffer := []\<rparr>)"
    by (simp add: example_state_def)
  have "consumption_get_stats True True True (example_state\<lparr>event_buffer := []\<rparr>)
          = (CONSUMPTION_SUCCESS, example_state\<lparr>event_buffer := []\<rparr>,
             (Some 3, Some 3, Some 8))"
    by (simp add: consumption_get_stats_def example_state_def)
  moreover have "consumption_on_dispense example_env 11111 1
                   (example_state\<lparr>event_buffer := []\<rparr>) = None"
    by (simp add: consumption_on_dispense_def add_event_to_buffer_def example_state_def
        example_config_def Let_def)
  ultimately show ?thesis
    using init_memory_error_example i by (simp add: init_when_initialized)
qed

text \<open>
  Claim C9. The payload is the JSON object of the claim, with the five literal fields
  and one \<open>products\<close> entry for each product id from 1 to 255 whose counter is not
  zero, whenever its text is at most 1023 characters long (\<open>build_json_fits\<close>,
  \<open>json_body_products\<close>). \<open>json_buffer\<close> has 1024 bytes and nothing bounds the
  text: with 160 or more product counters that are not zero the formatting runs
  past the end of \<open>json_buffer\<close> (\<open>build_json_overrun\<close>). In \<open>crowded_state\<close>, one
  buffered event for each product id from 1 to 255, a sync that is due aggregates all
  255 events and then leaves \<open>json_buffer\<close> while formatting them: no JSON object is
  built for the send, and the call has no defined behaviour, whatever the send would
  answer.
\<close>

theorem sync_to_api_payload_overrun:
  "sync_to_api 25 True crowded_state = None
   \<and> sync_to_api 25 False crowded_state = None
   \<and> (\<exists>agg. aggregate_events 8 25 crowded_state = Some (agg, crowded_state)
         \<and> unat (agg_total_events agg) = 255
         \<and> build_json agg = None)"
proof -
  from aggregate_events_words [OF crowded_state_ring_ok, of 8 25] obtain agg where
    a: "aggregate_events 8 25 crowded_state = Some (agg, crowded_state)"
    and tot': "agg_total_events agg
                = of_nat (length (filter (in_window 8 25) (buffered crowded_state)))"
    and cnt': "\<forall>c<256. product_counts agg ! c
                 = of_nat (length (filter (\<lambda>e. in_window 8 25 e \<and> unat (ev_product_id e) = c)
                     (buffered crowded_state)))"
    by blast
  have tot: "unat (agg_total_events agg)
                = length (filter (in_window 8 25) (buffered crowded_state))"
    unfolding tot' by (rule unat_of_nat_u32 [OF filter_buffered_bound])
  have cnt: "\<forall>c. 1 \<le> c \<and> c \<le> 255 \<longrightarrow>
                 unat (product_counts agg ! c)
                   = length (filter (\<lambda>e. in_window 8 25 e \<and> unat (ev_product_id e) = c)
                       (buffered crowded_state))"
    using cnt' by (simp add: unat_of_nat_u32 [OF filter_buffered_bound])
  have pos: "product_counts agg ! c > 0" if "c \<in> set [1..<256]" for c
  proof -
    have c: "1 \<le> c" "c \<le> 255" using that by simp_all
    have "0 < unat (product_counts agg ! c)"
      using cnt [rule_format, of c] c crowded_state_product [OF c] by simp
    then show ?thesis by (simp add: unat_gt_0 word_neq_0_conv)
  qed
  then have "filter (\<lambda>j. product_counts agg ! j > 0) [1..<256] = [1..<256]"
    by (simp only: filter_id_conv) blast
  then have many: "160 \<le> length (filter (\<lambda>j. product_counts agg ! j > 0) [1..<256])"
    by simp
  have f: "filter (in_window 8 25) (buffered crowded_state) = buffered crowded_state"
    unfolding buffered_crowded_state
    by (simp add: crowded_state_def in_window_def filter_id_conv)
  have t255: "unat (agg_total_events agg) = 255"
    unfolding tot f by (simp add: length_buffered crowded_state_def)
  then have t: "agg_total_events agg \<noteq> 0" by auto
  have h1: "enable_external_api (config crowded_state)"
    by (simp add: crowded_state_def example_config_def)
  have h2: "\<not> sync_in_progress crowded_state" by (simp add: crowded_state_def)
  have h3: "\<not> 25 - last_aggregation crowded_state
              < aggregation_interval (config crowded_state)"
    by (simp add: crowded_state_def example_config_def)
  have h4: "aggregate_events (last_aggregation crowded_state) 25 crowded_state
              = Some (agg, crowded_state)"
    using a by (simp add: crowded_state_def)
  note none = build_json_overrun [OF many]
  show ?thesis
    using sync_to_api_overrun [OF h1 h2 h3 h4 t none, of True]
      sync_to_api_overrun [OF h1 h2 h3 h4 t none, of False] a t255 none
    by blast
qed

text \<open>
  Claim C10. Take an accepted \<open>consumption_on_dispense\<close> call: initialized instance,
  consistent ring buffer, matching machine id, product id not 0. Unless the external API
  is enabled and the clock read after the append is at least one aggregation interval
  past \<open>last_sync\<close> (difference in 32 bits), \<open>sync_to_api\<close> is not called: the call
  returns success, no platform call is made, and \<open>last_sync\<close> and \<open>last_aggregation\<close>
  are those before the call. When both hold, the call is one run of \<open>sync_to_api\<close> on
  the state with the event appended and the total incremented: the state and the platform
  calls are those of that run, its error code is replaced by success, and the call has no
  defined behaviour where that run has none. So the interval check of \<open>sync_to_api\<close> on
  \<open>last_aggregation\<close> still applies on top of this gate. With the external API disabled
  or a capacity of at most 53 that run always returns.
\<close>

theorem on_dispense_sync_gate:
  assumes "ring_ok s" and "initialized s" and "mid = machine_id (config s)"
    and "product_id \<noteq> 0"
  shows "(\<not> (enable_external_api (config s)
              \<and> t_check env - last_sync s \<ge> aggregation_interval (config s)) \<longrightarrow>
            (\<exists>s'. consumption_on_dispense env mid product_id s
                     = Some (CONSUMPTION_SUCCESS, s', [])
                 \<and> last_sync s' = last_sync s
                 \<and> last_aggregation s' = last_aggregation s))
         \<and> (enable_external_api (config s)
              \<and> t_check env - last_sync s \<ge> aggregation_interval (config s) \<longrightarrow>
            consumption_on_dispense env mid product_id s
              = (case sync_to_api (t_sync env) (send_ok env)
                        ((pushed \<lparr>ev_timestamp = t_event env, ev_machine_id = mid,
                                  ev_product_id = product_id\<rparr> s)
                           \<lparr>total_events := total_events s + 1\<rparr>) of
                   None \<Rightarrow> None
                 | Some (r, s', calls) \<Rightarrow> Some (CONSUMPTION_SUCCESS, s', calls)))
         \<and> (enable_external_api (config s)
              \<and> t_check env - last_sync s \<ge> aggregation_interval (config s)
              \<and> payload_safe (config s) \<longrightarrow>
            (\<exists>r s' calls.
               sync_to_api (t_sync env) (send_ok env)
                 ((pushed \<lparr>ev_timestamp = t_event env, ev_machine_id = mid,
                           ev_product_id = product_id\<rparr> s)
                    \<lparr>total_events := total_events s + 1\<rparr>) = Some (r, s', calls)
               \<and> consumption_on_dispense env mid product_id s
                   = Some (CONSUMPTION_SUCCESS, s', calls)))"
proof (intro conjI impI)
  assume "\<not> (enable_external_api (config s)
              \<and> t_check env - last_sync s \<ge> aggregation_interval (config s))"
  from on_dispense_gate_closed [OF assms this]
  show "\<exists>s'. consumption_on_dispense env mid product_id s = Some (CONSUMPTION_SUCCESS, s', [])
              \<and> last_sync s' = last_sync s \<and> last_aggregation s' = last_aggregation s"
    by (simp add: pushed_frame)
next
  assume "enable_external_api (config s)
            \<and> t_check env - last_sync s \<ge> aggregation_interval (config s)"
  then show "consumption_on_dispense env mid product_id s
              = (case sync_to_api (t_sync env) (send_ok env)
                        ((pushed \<lparr>ev_timestamp = t_event env, ev_machine_id = mid,
                                  ev_product_id = product_id\<rparr> s)
                           \<lparr>total_events := total_events s + 1\<rparr>) of
                   None \<Rightarrow> None
                 | Some (r, s', calls) \<Rightarrow> Some (CONSUMPTION_SUCCESS, s', calls))"
    by (rule on_dispense_gate_open [OF assms])
next
  assume a: "enable_external_api (config s)
            \<and> t_check env - last_sync s \<ge> aggregation_interval (config s)
            \<and> payload_safe (config s)"
  then have gate: "enable_external_api (config s)
            \<and> t_check env - last_sync s \<ge> aggregation_interval (config s)"
    and safe: "payload_safe (config s)" by simp_all
  from sync_after_push_defined [OF assms(1) safe] obtain r s' calls where
    s: "sync_to_api (t_sync env) (send_ok env)
          ((pushed \<lparr>ev_timestamp = t_event env, ev_machine_id = mid,
                    ev_product_id = product_id\<rparr> s)
             \<lparr>total_events := total_events s + 1\<rparr>) = Some (r, s', calls)"
    by blast
  then have "consumption_on_dispense env mid product_id s
               = Some (CONSUMPTION_SUCCESS, s', calls)"
    using on_dispense_gate_open [OF assms gate] by simp
  then show "\<exists>r s' calls.
               sync_to_api (t_sync env) (send_ok env)
                 ((pushed \<lparr>ev_timestamp = t_event env, ev_machine_id = mid,
                           ev_product_id = product_id\<rparr> s)
                    \<lparr>total_events := total_events s + 1\<rparr>) = Some (r, s', calls)
               \<and> consumption_on_dispense env mid product_id s
                   = Some (CONSUMPTION_SUCCESS, s', calls)"
    using s by blast
qed

theorem on_dispense_sync_gate_witness:
  "ring_ok example_state \<and> initialized example_state
   \<and> 11111 = machine_id (config example_state)
   \<and> \<not> (enable_external_api (config example_state)
          \<and> t_check example_env_early - last_sync example_state
              \<ge> aggregation_interval (config example_state))
   \<and> (\<exists>s'. consumption_on_dispense example_env_early 11111 1 example_state
               = Some (CONSUMPTION_SUCCESS, s', [])
           \<and> last_sync s' = 8 \<and> last_aggregation s' = 8)
   \<and> (enable_external_api (config example_state)
          \<and> t_check example_env - last_sync example_state
              \<ge> aggregation_interval (config example_state)
          \<and> payload_safe (config example_state))
   \<and> consumption_on_dispense example_env 11111 1 example_state
       = (case sync_to_api 40 True
                 ((pushed \<lparr>ev_timestamp = 40, ev_machine_id = 11111, ev_product_id = 1\<rparr>
                     example_state)\<lparr>total_events := 4\<rparr>) of
            None \<Rightarrow> None
          | Some (r, s', calls) \<Rightarrow> Some (CONSUMPTION_SUCCESS, s', calls))
   \<and> (\<exists>r s' calls.
          sync_to_api 40 True
            ((pushed \<lparr>ev_timestamp = 40, ev_machine_id = 11111, ev_product_id = 1\<rparr>
                example_state)\<lparr>total_events := 4\<rparr>) = Some (r, s', calls)
          \<and> consumption_on_dispense example_env 11111 1 example_state
              = Some (CONSUMPTION_SUCCESS, s', calls))"
proof -
  have h1: "ring_ok example_state" by (rule example_state_ring_ok)
  have h2: "initialized example_state" by (simp add: example_state_def)
  have h3: "11111 = machine_id (config example_state)"
    by (simp add: example_state_def example_config_def)
  have h4: "(1::u8) \<noteq> 0" by simp
  have closed: "\<not> (enable_external_api (config example_state)
          \<and> t_check example_env_early - last_sync example_state
              \<ge> aggregation_interval (config example_state))"
    by (simp add: example_state_def example_config_def example_env_early_def)
  have opened: "enable_external_api (config example_state)
          \<and> t_check example_env - last_sync example_state
              \<ge> aggregation_interval (config example_state)"
    by (simp add: example_state_def example_config_def example_env_def)
  have safe: "payload_safe (config example_state)"
    by (simp add: payload_safe_def example_state_def example_config_def)
  have opened_safe: "enable_external_api (config example_state)
          \<and> t_check example_env - last_sync example_state
              \<ge> aggregation_interval (config example_state)
          \<and> payload_safe (config example_state)"
    using opened safe by simp
  have ls: "last_sync example_state = 8" "last_aggregation example_state = 8"
    "total_events example_state + 1 = 4"
    by (simp_all add: example_state_def)
  have ev: "t_event example_env = 40" "t_sync example_env = 40" "send_ok example_env = True"
    by (simp_all add: example_env_def)
  note gate = on_dispense_sync_gate [OF h1 h2 h3 h4]
  from gate [of example_env_early, THEN conjunct1, rule_format, OF closed]
  have a: "\<exists>s'. consumption_on_dispense example_env_early 11111 1 example_state
               = Some (CONSUMPTION_SUCCESS, s', [])
           \<and> last_sync s' = 8 \<and> last_aggregation s' = 8"
    by (simp add: ls)
  from gate [of example_env, THEN conjunct2, THEN conjunct1, rule_format, OF opened]
  have b: "consumption_on_dispense example_env 11111 1 example_state
       = (case sync_to_api 40 True
                 ((pushed \<lparr>ev_timestamp = 40, ev_machine_id = 11111, ev_product_id = 1\<rparr>
                     example_state)\<lparr>total_events := 4\<rparr>) of
            None \<Rightarrow> None
          | Some (r, s', calls) \<Rightarrow> Some (CONSUMPTION_SUCCESS, s', calls))"
    by (simp only: ls ev)
  from gate [of example_env, THEN conjunct2, THEN conjunct2, rule_format, OF opened_safe]
  have c: "\<exists>r s' calls.
          sync_to_api 40 True
            ((pushed \<lparr>ev_timestamp = 40, ev_machine_id = 11111, ev_product_id = 1\<rparr>
                example_state)\<lparr>total_events := 4\<rparr>) = Some (r, s', calls)
          \<and> consumption_on_dispense example_env 11111 1 example_state
              = Some (CONSUMPTION_SUCCESS, s', calls)"
    by (simp only: ls ev)
  show ?thesis using h1 h2 h3 closed opened_safe a b c by blast
qed

end
